theory Spec2Isabelle
  imports Complex_Main "HOL-Library.Word"
begin

section \<open>Wav2Bin: a shallow embedding of main.cpp\<close>

text \<open>
  The program reads PCM WAV files, pads each payload to a multiple of the CD sector
  size, appends the blocks to a BIN image and writes a CUE sheet.  C++ \<^verbatim>\<open>char\<close> is
  \<^typ>\<open>char\<close> (one byte), a file is the \<^typ>\<open>string\<close> of its bytes, \<^verbatim>\<open>uint32_t\<close> and
  \<^verbatim>\<open>uint16_t\<close> are words whose arithmetic wraps, a \<^verbatim>\<open>double\<close> is the real number it
  denotes, and an exception is a value.  A run whose meaning C++ leaves open (a read of
  uninitialised memory, a floating-point value converted to an integer type that cannot
  hold it, a write past a buffer) ends in \<open>UndefinedBehaviour\<close>: the model promises
  nothing about it.
\<close>

subsection \<open>Constants and data\<close>

type_synonym uint16 = "16 word"
type_synonym uint32 = "32 word"

definition CD_SECTOR_SIZE :: int where
  "CD_SECTOR_SIZE = 2352"

definition CD_FRAMES_PER_SECOND :: int where
  "CD_FRAMES_PER_SECOND = 75"

definition CD_BYTES_PER_FRAME :: int where
  "CD_BYTES_PER_FRAME = CD_SECTOR_SIZE"

record WAVHeader =
  chunkID :: string
  chunkSize :: uint32
  format :: string
  subchunk1ID :: string
  subchunk1Size :: uint32
  audioFormat :: uint16
  numChannels :: uint16
  sampleRate :: uint32
  byteRate :: uint32
  blockAlign :: uint16
  bitsPerSample :: uint16
  subchunk2ID :: string
  subchunk2Size :: uint32

record TrackInfo =
  title :: string
  offsetFrames :: uint32

datatype failure = RuntimeError string | UndefinedBehaviour

text \<open>
  The environment of a run: \<open>contents fs p\<close> is what an input stream opened on the path
  \<open>p\<close> delivers (\<open>None\<close> when the file cannot be opened), \<open>writable fs p\<close> says whether
  an output stream on \<open>p\<close> opens.  Writes to an open output stream and the allocation of
  the buffer are taken to succeed, the two output files are taken to be files other than
  the inputs and each other, and a text stream writes its bytes unchanged (as on macOS,
  the platform of the source).
\<close>

record filesystem =
  contents :: "string \<Rightarrow> string option"
  writable :: "string \<Rightarrow> bool"

subsection \<open>The header as raw memory\<close>

text \<open>
  \<^verbatim>\<open>wavFile.read(reinterpret_cast<char*>(&header), sizeof(WAVHeader))\<close> copies the first
  44 bytes of the file over the struct.  The fields have no padding between them (every
  field sits at a multiple of its size) and integers are little-endian.
\<close>

definition le16 :: "string \<Rightarrow> uint16" where
  "le16 cs = of_char (cs ! 0) + 256 * of_char (cs ! 1)"

definition le32 :: "string \<Rightarrow> uint32" where
  "le32 cs = of_char (cs ! 0) + 256 * of_char (cs ! 1) + 65536 * of_char (cs ! 2)
     + 16777216 * of_char (cs ! 3)"

definition field :: "nat \<Rightarrow> nat \<Rightarrow> string \<Rightarrow> string" where
  "field off len bytes = take len (drop off bytes)"

definition read_header :: "string \<Rightarrow> WAVHeader" where
  "read_header bytes =
     \<lparr> chunkID = field 0 4 bytes,
       chunkSize = le32 (field 4 4 bytes),
       format = field 8 4 bytes,
       subchunk1ID = field 12 4 bytes,
       subchunk1Size = le32 (field 16 4 bytes),
       audioFormat = le16 (field 20 2 bytes),
       numChannels = le16 (field 22 2 bytes),
       sampleRate = le32 (field 24 4 bytes),
       byteRate = le32 (field 28 4 bytes),
       blockAlign = le16 (field 32 2 bytes),
       bitsPerSample = le16 (field 34 2 bytes),
       subchunk2ID = field 36 4 bytes,
       subchunk2Size = le32 (field 40 4 bytes) \<rparr>"

subsection \<open>Double arithmetic\<close>

text \<open>
  IEEE 754 binary64 with round to nearest, ties to even.  \<open>binary64 a b\<close> is the double
  nearest to the quotient \<open>a / b\<close> of two positive integers: the quotient is scaled to a
  53-bit significand, rounded to an integer and scaled back.  The exponent range is not
  modelled; the values below lie between \<open>2\<^sup>-\<^sup>1\<^sup>2\<close> and \<open>2\<^sup>3\<^sup>3\<close>.
\<close>

definition rne :: "nat \<Rightarrow> nat \<Rightarrow> nat" where
  "rne n d =
     (let q = n div d; r = n mod d
      in if 2 * r < d then q else if d < 2 * r then q + 1 else if even q then q else q + 1)"

fun bit_length :: "nat \<Rightarrow> nat" where
  "bit_length n = (if n = 0 then 0 else Suc (bit_length (n div 2)))"

definition floor_log2 :: "nat \<Rightarrow> nat \<Rightarrow> int" where
  "floor_log2 a b =
     (let d = int (bit_length a) - int (bit_length b)
      in if (if 0 \<le> d then b * 2 ^ nat d \<le> a else b \<le> a * 2 ^ nat (- d)) then d else d - 1)"

definition binary64 :: "nat \<Rightarrow> nat \<Rightarrow> real" where
  "binary64 a b =
     (if a = 0 then 0
      else let e = floor_log2 a b
           in if e \<le> 52 then real (rne (a * 2 ^ nat (52 - e)) b) / 2 ^ nat (52 - e)
              else real (rne a (b * 2 ^ nat (e - 52))) * 2 ^ nat (e - 52))"

text \<open>
  \<^verbatim>\<open>static_cast<double>(rawAudioSize) / CD_SECTOR_SIZE\<close>: both operands are integers below
  \<open>2\<^sup>5\<^sup>3\<close>, so their conversion to double is exact and the quotient is rounded once.
\<close>

definition double_div :: "nat \<Rightarrow> nat \<Rightarrow> real" where
  "double_div a b = binary64 a b"

text \<open>\<^verbatim>\<open>std::ceil\<close> is exact: its result is an integer-valued double.\<close>

definition ceil_double :: "real \<Rightarrow> nat" where
  "ceil_double x = nat \<lceil>x\<rceil>"

text \<open>The product of two integer-valued doubles, rounded once.\<close>

definition double_mul :: "nat \<Rightarrow> nat \<Rightarrow> real" where
  "double_mul a b = binary64 (a * b) 1"

text \<open>
  The implicit conversion of a double to \<^verbatim>\<open>uint32_t\<close> truncates towards zero; when the
  truncated value is not a value of the type the behaviour is undefined (\<open>None\<close>).
\<close>

definition double_to_uint32 :: "real \<Rightarrow> uint32 option" where
  "double_to_uint32 x =
     (let t = (if 0 \<le> x then \<lfloor>x\<rfloor> else \<lceil>x\<rceil>)
      in if 0 \<le> t \<and> t < 2 ^ 32 then Some (word_of_int t) else None)"

text \<open>
  Line 87:
  \<^verbatim>\<open>uint32_t alignedSize = std::ceil(static_cast<double>(rawAudioSize) / CD_SECTOR_SIZE) * CD_SECTOR_SIZE;\<close>
\<close>

definition alignedSize :: "uint32 \<Rightarrow> uint32 option" where
  "alignedSize rawAudioSize =
     double_to_uint32
       (double_mul (ceil_double (double_div (unat rawAudioSize) (nat CD_SECTOR_SIZE)))
          (nat CD_SECTOR_SIZE))"

subsection \<open>Formatted output\<close>

definition digit_char :: "nat \<Rightarrow> char" where
  "digit_char d = ''0123456789'' ! d"

fun decimal :: "nat \<Rightarrow> string" where
  "decimal n = (if n < 10 then [digit_char n] else decimal (n div 10) @ [digit_char (n mod 10)])"

text \<open>\<^verbatim>\<open>std::setw(2) << std::setfill('0')\<close> before an unsigned number: a minimum width.\<close>

definition setw2 :: "string \<Rightarrow> string" where
  "setw2 s = replicate (2 - length s) CHR ''0'' @ s"

definition dquote :: char where
  "dquote = CHR 0x22"

definition newline :: char where
  "newline = CHR 0x0A"

text \<open>The three fields of the INDEX line (lines 55 to 57), on unsigned 32-bit values.\<close>

definition timecode :: "uint32 \<Rightarrow> string" where
  "timecode frames =
     setw2 (decimal (unat (frames div word_of_int (CD_FRAMES_PER_SECOND * 60)))) @ '':'' @
     setw2 (decimal (unat ((frames div word_of_int CD_FRAMES_PER_SECOND) mod 60))) @ '':'' @
     setw2 (decimal (unat (frames mod word_of_int CD_FRAMES_PER_SECOND)))"

subsection \<open>writeCUEFile\<close>

text \<open>The body of the loop of lines 50 to 58 for the track at index \<open>i\<close>.\<close>

definition cue_track :: "nat \<Rightarrow> TrackInfo \<Rightarrow> string" where
  "cue_track i track =
     ''  TRACK '' @ decimal (i + 1) @ '' AUDIO'' @ [newline] @
     ''    TITLE '' @ [dquote] @ title track @ [dquote] @ [newline] @
     ''    INDEX 01 '' @ timecode (offsetFrames track) @ [newline]"

fun cue_tracks :: "nat \<Rightarrow> TrackInfo list \<Rightarrow> string" where
  "cue_tracks i [] = []"
| "cue_tracks i (track # rest) = cue_track i track @ cue_tracks (i + 1) rest"

definition cue_text :: "string \<Rightarrow> TrackInfo list \<Rightarrow> string" where
  "cue_text binFileName tracks =
     ''FILE '' @ [dquote] @ binFileName @ [dquote] @ '' BINARY'' @ [newline] @ cue_tracks 0 tracks"

text \<open>The result is the error thrown or the text written to the CUE file.\<close>

definition writeCUEFile :: "filesystem \<Rightarrow> string \<Rightarrow> string \<Rightarrow> TrackInfo list \<Rightarrow> failure + string" where
  "writeCUEFile fs cueFilePath binFileName tracks =
     (if \<not> writable fs cueFilePath then Inl (RuntimeError ''Failed to open CUE file for writing.'')
      else Inr (cue_text binFileName tracks))"

subsection \<open>convertWAVToBIN\<close>

text \<open>
  \<^verbatim>\<open>std::filesystem::path(wavFilePath).stem()\<close> with \<open>/\<close> as the separator: the last
  component of the path up to its last dot, and the whole component when it is \<open>.\<close> or
  \<open>..\<close>, has no dot, or has its only dot in front.
\<close>

definition filename :: "string \<Rightarrow> string" where
  "filename p = rev (takeWhile (\<lambda>c. c \<noteq> CHR ''/'') (rev p))"

definition stem :: "string \<Rightarrow> string" where
  "stem p =
     (let f = filename p;
          ext = rev (takeWhile (\<lambda>c. c \<noteq> CHR ''.'') (rev f))
      in if f = ''.'' \<or> f = ''..'' \<or> CHR ''.'' \<notin> set f \<or> length ext + 1 = length f then f
         else take (length f - length ext - 1) f)"

text \<open>
  \<^verbatim>\<open>wavFile.read(audioData.data(), rawAudioSize)\<close>: up to \<open>n\<close> bytes of the rest of the
  stream overwrite the front of the buffer; more bytes than the buffer holds would be
  written past its end.
\<close>

definition stream_read :: "string \<Rightarrow> string \<Rightarrow> nat \<Rightarrow> string option" where
  "stream_read buffer rest n =
     (let got = take n rest
      in if length buffer < length got then None else Some (got @ drop (length got) buffer))"

record conv_state =
  binFile :: string
  tracks :: "TrackInfo list"
  currentOffsetFrames :: uint32

definition invalid_format :: "string \<Rightarrow> failure" where
  "invalid_format wavFilePath = RuntimeError (''Invalid or unsupported WAV file format: '' @ wavFilePath)"

text \<open>
  The body of the loop of lines 69 to 105.  A file shorter than the header leaves the
  rest of \<open>header\<close> uninitialised; the checks of line 81 run left to right and stop at
  the first that fails, so a field is read only when the ones before it passed.
\<close>

definition loop_body :: "filesystem \<Rightarrow> string \<Rightarrow> conv_state \<Rightarrow> failure + conv_state" where
  "loop_body fs wavFilePath s =
     (case contents fs wavFilePath of
        None \<Rightarrow> Inl (RuntimeError (''Failed to open WAV file: '' @ wavFilePath))
      | Some bytes \<Rightarrow>
          let header = read_header (take 44 bytes); n = length bytes
          in if n < 4 then Inl UndefinedBehaviour
             else if chunkID header \<noteq> ''RIFF'' then Inl (invalid_format wavFilePath)
             else if n < 12 then Inl UndefinedBehaviour
             else if format header \<noteq> ''WAVE'' then Inl (invalid_format wavFilePath)
             else if n < 22 then Inl UndefinedBehaviour
             else if audioFormat header \<noteq> 1 then Inl (invalid_format wavFilePath)
             else if n < 44 then Inl UndefinedBehaviour
             else
               let rawAudioSize = subchunk2Size header
               in (case alignedSize rawAudioSize of
                     None \<Rightarrow> Inl UndefinedBehaviour
                   | Some aligned \<Rightarrow>
                       (case stream_read (replicate (unat aligned) (CHR 0x00)) (drop 44 bytes)
                               (unat rawAudioSize) of
                          None \<Rightarrow> Inl UndefinedBehaviour
                        | Some audioData \<Rightarrow>
                            Inr \<lparr> binFile = binFile s @ audioData,
                                  tracks = tracks s @
                                    [\<lparr> title = stem wavFilePath,
                                       offsetFrames = currentOffsetFrames s \<rparr>],
                                  currentOffsetFrames = currentOffsetFrames s
                                    + aligned div word_of_int CD_BYTES_PER_FRAME \<rparr>)))"

text \<open>
  The loop: an exception leaves the state as the files before it made it (the stream's
  destructor flushes what was written; \<open>tracks\<close> is the caller's vector).
\<close>

fun convert_loop :: "filesystem \<Rightarrow> string list \<Rightarrow> conv_state \<Rightarrow> conv_state \<times> failure option" where
  "convert_loop fs [] s = (s, None)"
| "convert_loop fs (wavFilePath # rest) s =
     (case loop_body fs wavFilePath s of
        Inl e \<Rightarrow> (s, Some e)
      | Inr s' \<Rightarrow> convert_loop fs rest s')"

record conv_result =
  bin_data :: "string option"
  tracks_out :: "TrackInfo list"
  raised :: "failure option"

text \<open>
  \<open>bin_data\<close> is what the BIN file holds afterwards (\<open>None\<close>: it was never opened),
  \<open>tracks_out\<close> the caller's vector afterwards, \<open>raised\<close> the exception thrown, if any.
\<close>

definition convertWAVToBIN :: "filesystem \<Rightarrow> string list \<Rightarrow> string \<Rightarrow> TrackInfo list \<Rightarrow> conv_result" where
  "convertWAVToBIN fs wavFilePaths binFilePath tracks0 =
     (if \<not> writable fs binFilePath
      then \<lparr> bin_data = None, tracks_out = tracks0,
             raised = Some (RuntimeError ''Failed to open BIN file for writing.'') \<rparr>
      else
        let (s, e) = convert_loop fs wavFilePaths
                       \<lparr> binFile = [], tracks = tracks0, currentOffsetFrames = 0 \<rparr>
        in \<lparr> bin_data = Some (binFile s), tracks_out = tracks s, raised = e \<rparr>)"

subsection \<open>main\<close>

record run =
  exit_code :: int
  stdout :: string
  stderr :: string
  bin_file :: "string option"
  cue_file :: "string option"

definition error_exit :: "string \<Rightarrow> string option \<Rightarrow> run" where
  "error_exit msg bin =
     \<lparr> exit_code = 1, stdout = [], stderr = ''Error: '' @ msg @ [newline],
       bin_file = bin, cue_file = None \<rparr>"

text \<open>
  \<open>argv0\<close> is \<^verbatim>\<open>argv[0]\<close> and \<open>args\<close> the arguments after it, so \<^verbatim>\<open>argc\<close> is
  \<open>1 + length args\<close>.  \<open>None\<close> is a run with undefined behaviour.
\<close>

definition main :: "filesystem \<Rightarrow> string \<Rightarrow> string list \<Rightarrow> run option" where
  "main fs argv0 args =
     (if 1 + length args < 4 then
        Some \<lparr> exit_code = 1,
               stdout = ''Wav2Bin (c) 2024 Lorenzo Bachman'' @ [newline],
               stderr = ''Usage: '' @ argv0 @
                 '' <output BIN file> <output CUE file> <input WAV file(s)>'' @ [newline],
               bin_file = None, cue_file = None \<rparr>
      else
        let binFilePath = args ! 0;
            cueFilePath = args ! 1;
            wavFilePaths = drop 2 args;
            r = convertWAVToBIN fs wavFilePaths binFilePath []
        in case raised r of
             Some UndefinedBehaviour \<Rightarrow> None
           | Some (RuntimeError msg) \<Rightarrow> Some (error_exit msg (bin_data r))
           | None \<Rightarrow>
               (case writeCUEFile fs cueFilePath binFilePath (tracks_out r) of
                  Inl UndefinedBehaviour \<Rightarrow> None
                | Inl (RuntimeError msg) \<Rightarrow> Some (error_exit msg (bin_data r))
                | Inr text \<Rightarrow>
                    Some \<lparr> exit_code = 0,
                           stdout = ''Conversion completed successfully.'' @ [newline],
                           stderr = [], bin_file = bin_data r, cue_file = Some text \<rparr>))"

subsection \<open>Vocabulary of the properties\<close>

text \<open>
  The checks of line 81 pass on \<open>header_ok\<close>.  A path is a valid input when its file
  opens, holds the 44 bytes of the header, passes the checks and declares a payload
  whose sector-aligned size still fits \<^verbatim>\<open>uint32_t\<close>, that is at most 4294966032 bytes
  (1826091 sectors).  \<open>track_alignedSize\<close> is the value of \<^verbatim>\<open>alignedSize\<close> the loop
  computes for the file, \<open>payload_read\<close> the bytes the second read delivers and
  \<open>track_block\<close> the buffer written for the file.
\<close>

definition header_ok :: "WAVHeader \<Rightarrow> bool" where
  "header_ok h \<longleftrightarrow> chunkID h = ''RIFF'' \<and> format h = ''WAVE'' \<and> audioFormat h = 1"

definition file_bytes :: "filesystem \<Rightarrow> string \<Rightarrow> string" where
  "file_bytes fs p = (case contents fs p of None \<Rightarrow> [] | Some bytes \<Rightarrow> bytes)"

definition declared_size :: "filesystem \<Rightarrow> string \<Rightarrow> nat" where
  "declared_size fs p = unat (subchunk2Size (read_header (file_bytes fs p)))"

definition valid_wav :: "filesystem \<Rightarrow> string \<Rightarrow> bool" where
  "valid_wav fs p \<longleftrightarrow>
     contents fs p \<noteq> None \<and> 44 \<le> length (file_bytes fs p) \<and>
     header_ok (read_header (file_bytes fs p)) \<and> declared_size fs p \<le> 4294966032"

definition track_alignedSize :: "filesystem \<Rightarrow> string \<Rightarrow> nat" where
  "track_alignedSize fs p =
     (case alignedSize (subchunk2Size (read_header (file_bytes fs p))) of
        None \<Rightarrow> 0 | Some aligned \<Rightarrow> unat aligned)"

definition payload_read :: "filesystem \<Rightarrow> string \<Rightarrow> string" where
  "payload_read fs p = take (declared_size fs p) (drop 44 (file_bytes fs p))"

definition track_block :: "filesystem \<Rightarrow> string \<Rightarrow> string" where
  "track_block fs p =
     payload_read fs p @
     replicate (track_alignedSize fs p - length (payload_read fs p)) (CHR 0x00)"

text \<open>The number of frames the loop adds to the running counter for a file.\<close>

definition track_frames :: "filesystem \<Rightarrow> string \<Rightarrow> nat" where
  "track_frames fs p = track_alignedSize fs p div 2352"

subsection \<open>Example inputs\<close>

text \<open>
  A canonical 44-byte header (16-bit stereo PCM at 44100 Hz) in front of the four
  little-endian bytes of \<open>subchunk2Size\<close>, and a file system with a three-byte track, a
  track that declares five bytes and holds two, an empty track and a file that is not
  RIFF.
\<close>

definition wav_header :: "string \<Rightarrow> string" where
  "wav_header size_le =
     ''RIFF'' @ [CHR 0x24, CHR 0x00, CHR 0x00, CHR 0x00] @ ''WAVEfmt '' @
     [CHR 0x10, CHR 0x00, CHR 0x00, CHR 0x00, CHR 0x01, CHR 0x00, CHR 0x02, CHR 0x00,
      CHR 0x44, CHR 0xAC, CHR 0x00, CHR 0x00, CHR 0x10, CHR 0xB1, CHR 0x02, CHR 0x00,
      CHR 0x04, CHR 0x00, CHR 0x10, CHR 0x00] @ ''data'' @ size_le"

definition track_a :: string where
  "track_a = wav_header [CHR 0x03, CHR 0x00, CHR 0x00, CHR 0x00] @ ''abc''"

definition track_b :: string where
  "track_b = wav_header [CHR 0x05, CHR 0x00, CHR 0x00, CHR 0x00] @ ''de''"

definition track_empty :: string where
  "track_empty = wav_header [CHR 0x00, CHR 0x00, CHR 0x00, CHR 0x00]"

definition not_riff :: string where
  "not_riff = ''RIFX'' @ drop 4 track_a"

definition example_fs :: filesystem where
  "example_fs =
     \<lparr> contents = (\<lambda>p.
         if p = ''a.wav'' then Some track_a
         else if p = ''music/b.wav'' then Some track_b
         else if p = ''empty.wav'' then Some track_empty
         else if p = ''bad.wav'' then Some not_riff
         else None),
       writable = (\<lambda>p. p = ''out.bin'' \<or> p = ''out.cue'') \<rparr>"

text \<open>
  Every path holds a header that declares 4294966032 bytes (1826091 sectors, the largest
  aligned size \<^verbatim>\<open>uint32_t\<close> holds) and no payload.
\<close>

definition big_fs :: filesystem where
  "big_fs =
     \<lparr> contents = (\<lambda>p. Some (wav_header [CHR 0x10, CHR 0xFB, CHR 0xFF, CHR 0xFF])),
       writable = (\<lambda>p. True) \<rparr>"

text \<open>Every path holds a header that passes the checks and declares 4294967295 bytes.\<close>

definition track_overflow :: string where
  "track_overflow = wav_header [CHR 0xFF, CHR 0xFF, CHR 0xFF, CHR 0xFF] @ ''abc''"

definition overflow_fs :: filesystem where
  "overflow_fs = \<lparr> contents = (\<lambda>p. Some track_overflow), writable = (\<lambda>p. True) \<rparr>"

definition initial_state :: conv_state where
  "initial_state = \<lparr> binFile = [], tracks = [], currentOffsetFrames = 0 \<rparr>"

text \<open>
  A file of 43 bytes: the canonical header cut off after the third byte of
  \<open>subchunk2Size\<close>.  The three fields of the checks are all there, the last byte of the
  declared size is not.
\<close>

definition track_short :: string where
  "track_short = wav_header [CHR 0x03, CHR 0x00, CHR 0x00]"

definition short_fs :: filesystem where
  "short_fs =
     \<lparr> contents = (\<lambda>p. if p = ''a.wav'' then Some track_short else None),
       writable = (\<lambda>p. p = ''out.bin'' \<or> p = ''out.cue'') \<rparr>"

section \<open>Properties\<close>

subsection \<open>The sector-aligned size\<close>

declare bit_length.simps [simp del]

lemma rne_lower: "n div d \<le> rne n d"
  by (simp add: rne_def Let_def)

lemma rne_upper: "rne n d \<le> n div d + 1"
  by (simp add: rne_def Let_def)

lemma rne_one: "rne n (Suc 0) = n"
  by (simp add: rne_def)

lemma rne_dvd: "0 < d \<Longrightarrow> d dvd n \<Longrightarrow> rne n d = n div d"
  by (auto simp: rne_def Let_def)

lemma bit_length_le: "n < 2 ^ k \<Longrightarrow> bit_length n \<le> k"
proof (induction k arbitrary: n)
  case 0
  then show ?case by (simp add: bit_length.simps)
next
  case (Suc k)
  have "n div 2 < 2 ^ k" using Suc.prems by simp
  then have "bit_length (n div 2) \<le> k" by (rule Suc.IH)
  then show ?case by (subst bit_length.simps) simp
qed

lemma bit_length_2352: "bit_length 2352 = 12"
  by code_simp

lemma bit_length_1: "bit_length (Suc 0) = 1"
  by code_simp

lemma floor_log2_le: "floor_log2 a b \<le> int (bit_length a) - int (bit_length b)"
  by (simp add: floor_log2_def Let_def)

lemma ceil_div_exact: "0 < b \<Longrightarrow> (q * b + b - 1) div b = (q::nat)"
proof -
  assume b: "0 < b"
  then have "q * b + b - 1 = (b - 1) + q * b" by simp
  then have "(q * b + b - 1) div b = (b - 1) div b + q"
    using b by (simp only: div_mult_self1)
  then show ?thesis using b by simp
qed

lemma ceil_div_inexact: "0 < r \<Longrightarrow> r < b \<Longrightarrow> (q * b + r + b - 1) div b = (q::nat) + 1"
proof -
  assume r: "0 < r" "r < b"
  then have "q * b + r + b - 1 = (r - 1) + (q + 1) * b" by simp
  then have "(q * b + r + b - 1) div b = (r - 1) div b + (q + 1)"
    using r by (simp only: div_mult_self1)
  then show ?thesis using r by simp
qed

lemma ceiling_rne_scaled:
  fixes a b K :: nat
  assumes b: "0 < b" and K: "b \<le> K"
  shows "\<lceil>real (rne (a * K) b) / real K\<rceil> = int ((a + b - 1) div b)"
proof -
  define q r where "q = a div b" and "r = a mod b"
  have a: "a = q * b + r" and r: "r < b"
    using b by (simp_all add: q_def r_def)
  have K0: "0 < K" using b K by simp
  show ?thesis
  proof (cases "r = 0")
    case True
    then have eq: "a * K = (q * K) * b" using a by (simp add: ac_simps)
    have "rne (a * K) b = (a * K) div b"
      using b by (intro rne_dvd) (simp_all add: eq)
    then have "rne (a * K) b = q * K"
      using b by (simp add: eq)
    moreover have "(a + b - 1) div b = q"
      using ceil_div_exact [OF b, of q] a True by simp
    ultimately show ?thesis using K0 by simp
  next
    case False
    have up: "(a + b - 1) div b = q + 1"
      using ceil_div_inexact [of r b q] False r a by simp
    have "(q * K + 1) * b \<le> a * K"
    proof -
      have "K \<le> r * K" using False by simp
      moreover have "a * K = q * K * b + r * K"
        by (simp add: a algebra_simps)
      moreover have "(q * K + 1) * b = q * K * b + b"
        by (simp add: add_mult_distrib)
      ultimately show ?thesis using K by linarith
    qed
    then have "q * K + 1 \<le> (a * K) div b"
      using b by (simp add: less_eq_div_iff_mult_less_eq)
    then have lo: "q * K < rne (a * K) b"
      using rne_lower [of "a * K" b] by simp
    have "a < (q + 1) * b" using r by (simp add: a)
    then have "a * K < ((q + 1) * b) * K" using K0 by (rule mult_less_mono1)
    also have "\<dots> = ((q + 1) * K) * b" by (simp only: ac_simps)
    finally have "a * K < ((q + 1) * K) * b" .
    then have "(a * K) div b < (q + 1) * K"
      by (rule less_mult_imp_div_less)
    then have hi: "rne (a * K) b \<le> (q + 1) * K"
      using rne_upper [of "a * K" b] by simp
    have "real (q * K) < real (rne (a * K) b)"
      using lo by (simp only: of_nat_less_iff)
    then have "real q < real (rne (a * K) b) / real K"
      using K0 by (simp add: pos_less_divide_eq)
    moreover have "real (rne (a * K) b) \<le> real ((q + 1) * K)"
      using hi by (simp only: of_nat_le_iff)
    then have "real (rne (a * K) b) / real K \<le> real q + 1"
      using K0 by (simp add: pos_divide_le_eq algebra_simps)
    ultimately have "\<lceil>real (rne (a * K) b) / real K\<rceil> = int q + 1"
      by (intro ceiling_eq) simp_all
    then show ?thesis using up by simp
  qed
qed

lemma binary64_integer: "n < 2 ^ 53 \<Longrightarrow> binary64 n 1 = real n"
proof -
  assume n: "n < 2 ^ 53"
  have "floor_log2 n 1 \<le> int (bit_length n) - 1"
    using floor_log2_le [of n 1] by (simp add: bit_length_1)
  moreover have "bit_length n \<le> 53" using n by (rule bit_length_le)
  ultimately have "floor_log2 n 1 \<le> 52" by simp
  then show ?thesis by (simp add: binary64_def Let_def rne_one)
qed

lemma ceil_double_div:
  assumes a: "a < 2 ^ 32"
  shows "ceil_double (double_div a 2352) = (a + 2351) div 2352"
proof (cases "a = 0")
  case True
  then show ?thesis by (simp add: ceil_double_def double_div_def binary64_def)
next
  case False
  define e where "e = floor_log2 a 2352"
  have "bit_length a \<le> 32" using a by (rule bit_length_le)
  then have e: "e \<le> 20"
    using floor_log2_le [of a 2352] by (simp add: e_def bit_length_2352)
  have "(2::nat) ^ 12 \<le> 2 ^ nat (52 - e)"
    using e by (intro power_increasing) simp_all
  then have K: "(2352::nat) \<le> 2 ^ nat (52 - e)" by simp
  have "\<lceil>real (rne (a * 2 ^ nat (52 - e)) 2352) / real ((2::nat) ^ nat (52 - e))\<rceil>
          = int ((a + 2352 - 1) div 2352)"
    using K by (intro ceiling_rne_scaled) simp_all
  then show ?thesis
    using False e by (simp add: ceil_double_def double_div_def binary64_def Let_def e_def [symmetric])
qed

lemma alignedSize_eq:
  "alignedSize raw =
     (if unat raw \<le> 4294966032 then Some (word_of_nat ((unat raw + 2351) div 2352 * 2352)) else None)"
proof -
  define c where "c = (unat raw + 2351) div 2352"
  have raw: "unat raw < 2 ^ 32" using unsigned_less [of raw] by simp
  have cd: "ceil_double (double_div (unat raw) 2352) = c"
    using raw by (simp add: ceil_double_div c_def)
  have "c \<le> 1826092" using raw by (simp add: c_def)
  then have "c * 2352 < 2 ^ 53" by simp
  then have m: "double_mul c 2352 = real (c * 2352)"
    by (simp only: double_mul_def binary64_integer)
  have "c < 1826092 \<longleftrightarrow> unat raw + 2351 < 1826092 * 2352"
    unfolding c_def by (rule div_less_iff_less_mult) simp
  moreover have "c * 2352 < 2 ^ 32 \<longleftrightarrow> c < 1826092"
    by simp linarith
  ultimately have iff: "c * 2352 < 2 ^ 32 \<longleftrightarrow> unat raw \<le> 4294966032"
    by simp linarith
  have "alignedSize raw = double_to_uint32 (real (c * 2352))"
    by (simp add: alignedSize_def CD_SECTOR_SIZE_def cd m)
  also have "\<dots> = (if c * 2352 < 2 ^ 32 then Some (word_of_nat (c * 2352)) else None)"
  proof -
    have "\<lfloor>real (c * 2352)\<rfloor> = int (c * 2352)" by (rule floor_of_nat)
    moreover have "int (c * 2352) < 2 ^ 32 \<longleftrightarrow> c * 2352 < 2 ^ 32"
      by (metis of_nat_less_iff of_nat_numeral of_nat_power)
    ultimately show ?thesis
      by (simp only: double_to_uint32_def Let_def of_nat_0_le_iff if_True simp_thms of_int_of_nat_eq)
  qed
  finally have fin: "alignedSize raw = (if c * 2352 < 2 ^ 32 then Some (word_of_nat (c * 2352)) else None)" .
  have "alignedSize raw =
      (if unat raw \<le> 4294966032 then Some (word_of_nat (c * 2352)) else None)"
    by (simp only: fin iff)
  then show ?thesis by (simp only: c_def)
qed

lemma unat_word_of_nat32: "n < 2 ^ 32 \<Longrightarrow> unat (word_of_nat n :: uint32) = n"
  by (simp only: unat_of_nat) simp

lemma alignedSize_in_range:
  assumes "unat raw \<le> 4294966032"
  shows "\<exists>aligned. alignedSize raw = Some aligned \<and>
           unat aligned = (unat raw + 2351) div 2352 * 2352 \<and>
           aligned div 2352 = word_of_nat ((unat raw + 2351) div 2352)"
proof -
  define c where "c = (unat raw + 2351) div 2352"
  have c: "c \<le> 1826091"
    using assms unfolding c_def by simp
  then have lt: "c * 2352 < 2 ^ 32" by simp
  have u: "unat (word_of_nat (c * 2352) :: uint32) = c * 2352"
    using lt by (rule unat_word_of_nat32)
  have uc: "unat (word_of_nat c :: uint32) = c"
    using c by (intro unat_word_of_nat32) simp
  have "unat ((word_of_nat (c * 2352) :: uint32) div 2352) = c"
    by (simp only: unat_div u) simp
  then have d: "(word_of_nat (c * 2352) :: uint32) div 2352 = word_of_nat c"
    by (simp only: word_unat_eq_iff uc)
  have "alignedSize raw = Some (word_of_nat (c * 2352))"
    using assms by (simp only: alignedSize_eq c_def if_True)
  then show ?thesis
    using u d unfolding c_def by blast
qed

lemma ceil_multiple_ge: "(n::nat) \<le> (n + 2351) div 2352 * 2352"
proof -
  have "(n + 2351) div 2352 * 2352 + (n + 2351) mod 2352 = n + 2351"
    by (rule div_mult_mod_eq)
  moreover have "(n + 2351) mod 2352 < 2352" by simp
  ultimately show ?thesis by linarith
qed

lemma ceil_multiple_less: "(n + 2351) div 2352 * 2352 - n < (2352::nat)"
proof -
  have "(n + 2351) div 2352 * 2352 + (n + 2351) mod 2352 = n + 2351"
    by (rule div_mult_mod_eq)
  then show ?thesis by linarith
qed

text \<open>
  C1 (the sector-aligned size is the exact ceiling for every 32-bit payload size).
  Up to 4294966032 bytes the double arithmetic of line 87 is exact and gives the integer
  ceiling (\<open>alignedSize_eq\<close>).  Above, it is not what the claim says: for a declared size
  of 4294967295 the double computed is 4294968384, which \<^verbatim>\<open>uint32_t\<close> cannot hold, so the
  conversion has no defined result, and no 32-bit value at all is both a multiple of
  2352 and at least the declared size.
\<close>

theorem alignedSize_overflow:
  "alignedSize 4294967295 = None \<and>
   \<not> (\<exists>a :: uint32. unat a mod 2352 = 0 \<and> unat (4294967295 :: uint32) \<le> unat a)"
proof
  show "alignedSize 4294967295 = None"
    by (simp add: alignedSize_eq)
  show "\<not> (\<exists>a :: uint32. unat a mod 2352 = 0 \<and> unat (4294967295 :: uint32) \<le> unat a)"
  proof (rule notI, elim exE conjE)
    fix a :: uint32
    assume m: "unat a mod 2352 = 0" and g: "unat (4294967295 :: uint32) \<le> unat a"
    have "unat a < 2 ^ 32" using unsigned_less [of a] by simp
    then have "unat a = 4294967295" using g by simp
    then show False using m by simp
  qed
qed

subsection \<open>The double model is round to nearest, ties to even\<close>

text \<open>
  \<open>rne\<close> is within one half of the quotient and even on a tie; \<open>floor_log2 a b\<close> is the
  binary exponent \<open>e\<close> of \<open>a / b\<close>; so \<open>binary64 a b\<close>, a multiple of \<open>2\<^sup>e\<^sup>-\<^sup>5\<^sup>2\<close> by
  its definition, is within half a unit in the last place, \<open>2\<^sup>e\<^sup>-\<^sup>5\<^sup>3\<close>, of \<open>a / b\<close>.
\<close>

lemma rne_nearest:
  assumes "0 < d"
  shows "\<bar>real (rne n d) - real n / real d\<bar> \<le> 1 / 2"
proof -
  define q r where "q = n div d" and "r = n mod d"
  have n: "real n = real q * real d + real r"
    unfolding q_def r_def by (metis div_mult_mod_eq of_nat_add of_nat_mult)
  have r: "r < d" using assms by (simp add: r_def)
  have d: "0 < real d" using assms by simp
  have frac: "real n / real d = real q + real r / real d"
    using d by (simp add: n add_divide_distrib)
  consider "2 * r < d" | "d < 2 * r" | "2 * r = d" by linarith
  then show ?thesis
  proof cases
    case 1
    then have "rne n d = q" by (simp add: rne_def q_def r_def Let_def)
    moreover have "real r / real d \<le> 1 / 2"
      using 1 d by (simp add: pos_divide_le_eq)
    moreover have "0 \<le> real r / real d" using d by simp
    ultimately show ?thesis by (simp add: frac)
  next
    case 2
    then have "rne n d = q + 1" by (simp add: rne_def q_def r_def Let_def)
    moreover have "1 / 2 \<le> real r / real d"
      using 2 d by (simp add: pos_le_divide_eq)
    moreover have "real r / real d \<le> 1"
      using r d by (simp add: pos_divide_le_eq)
    ultimately show ?thesis by (simp add: frac)
  next
    case 3
    have "real d = 2 * real r"
      using 3 by (metis of_nat_mult of_nat_numeral)
    moreover have "0 < real r" using 3 assms by simp
    ultimately have h: "real r / real d = 1 / 2" by simp
    have "rne n d = q \<or> rne n d = q + 1"
      by (simp add: rne_def q_def r_def Let_def)
    then show ?thesis
    proof
      assume "rne n d = q"
      then show ?thesis by (simp add: frac h)
    next
      assume "rne n d = q + 1"
      then show ?thesis by (simp add: frac h)
    qed
  qed
qed

lemma rne_tie_even: "0 < d \<Longrightarrow> 2 * (n mod d) = d \<Longrightarrow> even (rne n d)"
  by (simp add: rne_def Let_def)

lemma bit_length_bounds:
  "0 < n \<Longrightarrow> 2 ^ (bit_length n - 1) \<le> n \<and> n < 2 ^ bit_length n"
proof (induction n rule: bit_length.induct)
  case (1 n)
  show ?case
  proof (cases "n div 2 = 0")
    case True
    then have "n = 1" using "1.prems" by (simp add: div_eq_0_iff) 
    then show ?thesis by (simp add: bit_length_1)
  next
    case False
    then have "0 < n div 2" by simp
    with "1.IH" "1.prems" have ih: "2 ^ (bit_length (n div 2) - 1) \<le> n div 2"
      "n div 2 < 2 ^ bit_length (n div 2)" by simp_all
    have bl: "bit_length n = Suc (bit_length (n div 2))"
      using "1.prems" by (subst bit_length.simps) simp
    have pos: "0 < bit_length (n div 2)"
      using \<open>0 < n div 2\<close> by (subst bit_length.simps) simp
    have "2 ^ (bit_length n - 1) = 2 * 2 ^ (bit_length (n div 2) - 1)"
      using pos by (simp add: bl power_eq_if)
    also have "\<dots> \<le> 2 * (n div 2)" using ih(1) by simp
    also have "\<dots> \<le> n" by simp
    finally have lo: "2 ^ (bit_length n - 1) \<le> n" .
    have "n < 2 * (n div 2) + 2" by linarith
    also have "\<dots> \<le> 2 * 2 ^ bit_length (n div 2)" using ih(2) by simp
    finally have "n < 2 ^ bit_length n" by (simp add: bl)
    with lo show ?thesis by simp
  qed
qed

lemma floor_log2_correct:
  assumes a: "0 < a" and b: "0 < b"
  shows "real b * 2 powi floor_log2 a b \<le> real a \<and>
         real a < real b * 2 powi (floor_log2 a b + 1)"
proof -
  define la lb where "la = int (bit_length a)" and "lb = int (bit_length b)"
  define d where "d = la - lb"
  have pa: "0 < bit_length a" using a by (subst bit_length.simps) simp
  have pb: "0 < bit_length b" using b by (subst bit_length.simps) simp
  have "real (2 ^ (bit_length a - 1)) \<le> real a" and "real a < real (2 ^ bit_length a)"
    using bit_length_bounds [OF a] by (simp_all only: of_nat_le_iff of_nat_less_iff)
  then have a1: "2 powi (la - 1) \<le> real a" and a2: "real a < 2 powi la"
    using pa by (simp_all add: la_def power_int_def nat_diff_distrib')
  have "real (2 ^ (bit_length b - 1)) \<le> real b" and "real b < real (2 ^ bit_length b)"
    using bit_length_bounds [OF b] by (simp_all only: of_nat_le_iff of_nat_less_iff)
  then have b1: "2 powi (lb - 1) \<le> real b" and b2: "real b < 2 powi lb"
    using pb by (simp_all add: lb_def power_int_def nat_diff_distrib')
  have A: "real b * 2 powi (d - 1) \<le> real a"
  proof -
    have "real b * 2 powi (d - 1) \<le> 2 powi lb * 2 powi (d - 1)"
      using b2 by (intro mult_right_mono) simp_all
    also have "\<dots> = 2 powi (la - 1)"
      by (simp add: d_def power_int_add [symmetric])
    finally show ?thesis using a1 by simp
  qed
  have B: "real a < real b * 2 powi (d + 1)"
  proof -
    have "2 powi la = 2 powi (lb - 1) * (2::real) powi (d + 1)"
      by (simp add: d_def power_int_add [symmetric])
    also have "\<dots> \<le> real b * 2 powi (d + 1)"
      using b1 by (intro mult_right_mono) simp_all
    finally show ?thesis using a2 by simp
  qed
  have c: "(if 0 \<le> d then b * 2 ^ nat d \<le> a else b \<le> a * 2 ^ nat (- d))
      \<longleftrightarrow> real b * 2 powi d \<le> real a"
  proof (cases "0 \<le> d")
    case True
    then have "(2::real) powi d = 2 ^ nat d" by (simp add: power_int_def)
    then have "real b * 2 powi d = real (b * 2 ^ nat d)" by simp
    then show ?thesis using True by (simp only: of_nat_le_iff if_True)
  next
    case False
    then have "(2::real) powi d = inverse (2 ^ nat (- d))"
      by (simp add: power_int_def power_one_over inverse_eq_divide)
    then have "real b * 2 powi d = real b / 2 ^ nat (- d)"
      by (simp only: divide_inverse)
    then have "real b * 2 powi d \<le> real a \<longleftrightarrow> real b \<le> real a * 2 ^ nat (- d)"
      by (simp only: pos_divide_le_eq [of "2 ^ nat (- d)" "real b" "real a"] zero_less_power
            zero_less_numeral)
    then have "real b * 2 powi d \<le> real a \<longleftrightarrow> real b \<le> real (a * 2 ^ nat (- d))"
      by simp
    then show ?thesis using False by (simp only: of_nat_le_iff if_False)
  qed
  have "floor_log2 a b =
      (if (if 0 \<le> d then b * 2 ^ nat d \<le> a else b \<le> a * 2 ^ nat (- d)) then d else d - 1)"
    by (simp only: floor_log2_def Let_def d_def la_def lb_def)
  then have fl: "floor_log2 a b = (if real b * 2 powi d \<le> real a then d else d - 1)"
    by (simp only: c)
  show ?thesis
  proof (cases "real b * 2 powi d \<le> real a")
    case True
    then show ?thesis using B by (simp add: fl)
  next
    case False
    then show ?thesis using A by (simp add: fl)
  qed
qed

lemma abs_scale_div:
  fixes x y K :: real
  assumes "0 < K"
  shows "\<bar>x - y * K\<bar> / K = \<bar>x / K - y\<bar>"
proof -
  have "x / K - y = (x - y * K) / K" using assms by (simp add: field_simps)
  then show ?thesis using assms by (simp add: abs_divide)
qed

lemma abs_scale_mult:
  fixes x y J :: real
  assumes "0 < J"
  shows "\<bar>x - y / J\<bar> * J = \<bar>x * J - y\<bar>"
proof -
  have "x * J - y = (x - y / J) * J" using assms by (simp add: field_simps)
  then show ?thesis using assms by (simp add: abs_mult)
qed

lemma half_over_power: "(1 / 2) / 2 ^ k = (2::real) powi (- int (Suc k))"
proof -
  have "(2::real) powi (- int (Suc k)) = inverse (2 ^ Suc k)"
    by (simp only: power_int_minus power_int_of_nat)
  also have "\<dots> = (1 / 2) / 2 ^ k"
    by (simp add: divide_simps)
  finally show ?thesis by simp
qed

lemma half_times_power: "0 < j \<Longrightarrow> (1 / 2) * 2 ^ j = (2::real) powi (int j - 1)"
proof -
  assume "0 < j"
  then obtain i where j: "j = Suc i" by (cases j) simp_all
  have "(2::real) powi (int j - 1) = 2 powi (int i)" by (simp add: j)
  also have "\<dots> = 2 ^ i" by (simp only: power_int_of_nat)
  finally show ?thesis by (simp add: j)
qed

lemma binary64_nearest:
  assumes a: "0 < a" and b: "0 < b"
  shows "\<bar>binary64 a b - real a / real b\<bar> \<le> 2 powi (floor_log2 a b - 53)"
proof (cases "floor_log2 a b \<le> 52")
  case True
  define k where "k = nat (52 - floor_log2 a b)"
  have e: "floor_log2 a b - 53 = - int (Suc k)"
    using True by (simp add: k_def)
  have "binary64 a b = real (rne (a * 2 ^ nat (52 - floor_log2 a b)) b) / 2 ^ nat (52 - floor_log2 a b)"
    using a True by (simp add: binary64_def Let_def)
  then have v: "binary64 a b = real (rne (a * 2 ^ k) b) / 2 ^ k"
    by (simp only: k_def)
  have "\<bar>real (rne (a * 2 ^ k) b) - real (a * 2 ^ k) / real b\<bar> \<le> 1 / 2"
    using b by (rule rne_nearest)
  then have "\<bar>real (rne (a * 2 ^ k) b) - real (a * 2 ^ k) / real b\<bar> / 2 ^ k \<le> (1 / 2) / 2 ^ k"
    by (rule divide_right_mono) simp
  moreover have "\<bar>real (rne (a * 2 ^ k) b) - real (a * 2 ^ k) / real b\<bar> / 2 ^ k
      = \<bar>binary64 a b - real a / real b\<bar>"
  proof -
    have "real (a * 2 ^ k) / real b = real a / real b * 2 ^ k" by simp
    then show ?thesis
      by (simp only: v abs_scale_div [of "2 ^ k"] zero_less_power zero_less_numeral)
  qed
  ultimately show ?thesis
    by (simp only: e half_over_power)
next
  case False
  define j where "j = nat (floor_log2 a b - 52)"
  have e: "floor_log2 a b - 53 = int j - 1" and j: "0 < j"
    using False by (simp_all add: j_def)
  have "binary64 a b = real (rne a (b * 2 ^ nat (floor_log2 a b - 52))) * 2 ^ nat (floor_log2 a b - 52)"
    using a False by (simp add: binary64_def Let_def)
  then have v: "binary64 a b = real (rne a (b * 2 ^ j)) * 2 ^ j"
    by (simp only: j_def)
  have "\<bar>real (rne a (b * 2 ^ j)) - real a / real (b * 2 ^ j)\<bar> \<le> 1 / 2"
    using b by (intro rne_nearest) simp
  then have "\<bar>real (rne a (b * 2 ^ j)) - real a / real (b * 2 ^ j)\<bar> * 2 ^ j \<le> (1 / 2) * 2 ^ j"
    by (rule mult_right_mono) simp
  moreover have "\<bar>real (rne a (b * 2 ^ j)) - real a / real (b * 2 ^ j)\<bar> * 2 ^ j
      = \<bar>binary64 a b - real a / real b\<bar>"
  proof -
    have "real a / real (b * 2 ^ j) = real a / real b / 2 ^ j" by simp
    then show ?thesis
      by (simp only: v abs_scale_mult [of "2 ^ j"] zero_less_power zero_less_numeral)
  qed
  ultimately show ?thesis
    by (simp only: e half_times_power [OF j])
qed

text \<open>
  The doubles that IEEE 754 arithmetic gives for a few quotients, among them three
  quotients by the sector size and the ties at \<open>2\<^sup>5\<^sup>3\<close>.
\<close>

lemma bit_length_numeral:
  "bit_length (numeral k) = Suc (bit_length (numeral k div 2))"
  "bit_length 1 = 1" "bit_length 0 = 0"
  by (subst bit_length.simps, simp)+

lemma binary64_examples:
  "binary64 1 3 = 6004799503160661 / 2 ^ 54"
  "binary64 1 10 = 3602879701896397 / 2 ^ 55"
  "binary64 1 2352 = 7843003432699639 / 2 ^ 64"
  "binary64 123456789 2352 = 3607094362069201 / 2 ^ 36"
  "binary64 4294967295 2352 = 1960750857718387 / 2 ^ 30"
  "binary64 (2 ^ 53 + 1) 1 = 2 ^ 53"
  "binary64 (2 ^ 53 + 3) 1 = 2 ^ 53 + 4"
  by (simp_all add: binary64_def floor_log2_def rne_def Let_def bit_length_numeral)

subsection \<open>The loop body\<close>

lemma read_header_take: "read_header (take 44 bytes) = read_header bytes"
  by (simp add: read_header_def field_def take_drop min_def)

lemma stream_read_zeros:
  "n \<le> a \<Longrightarrow>
   stream_read (replicate a (CHR 0x00)) rest n =
     Some (take n rest @ replicate (a - length (take n rest)) (CHR 0x00))"
  by (simp add: stream_read_def Let_def min_def)

lemma loop_body_unopenable:
  "contents fs p = None \<Longrightarrow>
   loop_body fs p s = Inl (RuntimeError (''Failed to open WAV file: '' @ p))"
  by (simp add: loop_body_def)

lemma loop_body_invalid:
  assumes "contents fs p = Some bytes" and "44 \<le> length bytes"
    and "\<not> header_ok (read_header bytes)"
  shows "loop_body fs p s = Inl (invalid_format p)"
  using assms by (auto simp: loop_body_def Let_def read_header_take header_ok_def)

lemma loop_body_valid:
  assumes "valid_wav fs p"
  shows "loop_body fs p s =
     Inr \<lparr> binFile = binFile s @ track_block fs p,
           tracks = tracks s @ [\<lparr> title = stem p, offsetFrames = currentOffsetFrames s \<rparr>],
           currentOffsetFrames = currentOffsetFrames s
             + word_of_nat (track_alignedSize fs p div 2352) \<rparr>"
proof -
  obtain bytes where bytes: "contents fs p = Some bytes"
    using assms by (auto simp: valid_wav_def)
  then have fb: "file_bytes fs p = bytes" by (simp add: file_bytes_def)
  define raw where "raw = subchunk2Size (read_header bytes)"
  have len: "44 \<le> length bytes" and ok: "header_ok (read_header bytes)"
    and rng: "unat raw \<le> 4294966032"
    using assms by (simp_all add: valid_wav_def fb declared_size_def raw_def)
  obtain aligned where al: "alignedSize raw = Some aligned"
    and ua: "unat aligned = (unat raw + 2351) div 2352 * 2352"
    and dv: "aligned div 2352 = word_of_nat ((unat raw + 2351) div 2352)"
    using alignedSize_in_range [OF rng] by blast
  have ta: "track_alignedSize fs p = unat aligned"
    by (simp add: track_alignedSize_def fb raw_def [symmetric] al)
  have le: "unat raw \<le> unat aligned"
    unfolding ua by (rule ceil_multiple_ge)
  have rd: "stream_read (replicate (unat aligned) (CHR 0x00)) (drop 44 bytes) (unat raw)
      = Some (track_block fs p)"
    using le by (simp only: stream_read_zeros track_block_def payload_read_def
      declared_size_def fb raw_def [symmetric] ta)
  have fr: "aligned div word_of_int CD_BYTES_PER_FRAME
      = word_of_nat (track_alignedSize fs p div 2352)"
    by (simp add: CD_BYTES_PER_FRAME_def CD_SECTOR_SIZE_def dv ta ua)
  have hd: "chunkID (read_header bytes) = ''RIFF''" "format (read_header bytes) = ''WAVE''"
    "audioFormat (read_header bytes) = 1"
    using ok by (simp_all add: header_ok_def)
  show ?thesis
    using len by (simp add: loop_body_def bytes Let_def read_header_take hd raw_def [symmetric] al rd fr)
qed

subsection \<open>The BIN image\<close>

lemma map_upt_Suc0: "map f [0..<Suc n] = f 0 # map (\<lambda>j. f (Suc j)) [0..<n]"
  by (simp add: upt_conv_Cons map_Suc_upt [symmetric] del: upt_Suc)

lemma convert_loop_valid:
  assumes "\<forall>p \<in> set ps. valid_wav fs p"
  shows "convert_loop fs ps s =
     (\<lparr> binFile = binFile s @ concat (map (track_block fs) ps),
        tracks = tracks s @
          map (\<lambda>i. \<lparr> title = stem (ps ! i),
                      offsetFrames = currentOffsetFrames s
                        + word_of_nat (sum_list (map (track_frames fs) (take i ps))) \<rparr>)
            [0..<length ps],
        currentOffsetFrames = currentOffsetFrames s
          + word_of_nat (sum_list (map (track_frames fs) ps)) \<rparr>, None)"
  using assms
proof (induction ps arbitrary: s)
  case Nil
  show ?case by simp
next
  case (Cons p ps)
  have p: "valid_wav fs p" and ps: "\<forall>q \<in> set ps. valid_wav fs q"
    using Cons.prems by simp_all
  show ?case
    by (simp only: convert_loop.simps loop_body_valid [OF p] sum.case Cons.IH [OF ps]
          length_Cons map_upt_Suc0)
       (simp add: track_frames_def [symmetric] add.assoc)
qed

lemma track_alignedSize_valid:
  assumes "valid_wav fs p"
  shows "track_alignedSize fs p = (declared_size fs p + 2351) div 2352 * 2352"
proof -
  have "unat (subchunk2Size (read_header (file_bytes fs p))) \<le> 4294966032"
    using assms by (simp add: valid_wav_def declared_size_def)
  from alignedSize_in_range [OF this] show ?thesis
    by (auto simp: track_alignedSize_def declared_size_def)
qed

lemma payload_read_length:
  "length (payload_read fs p) = min (declared_size fs p) (length (file_bytes fs p) - 44)"
  by (simp add: payload_read_def min.commute)

lemma track_block_length:
  assumes "valid_wav fs p"
  shows "length (track_block fs p) = track_alignedSize fs p"
proof -
  have "length (payload_read fs p) \<le> declared_size fs p"
    by (simp add: payload_read_length)
  also have "\<dots> \<le> track_alignedSize fs p"
    unfolding track_alignedSize_valid [OF assms] by (rule ceil_multiple_ge)
  finally show ?thesis by (simp add: track_block_def)
qed

lemma track_block_nth_payload:
  assumes "k < length (payload_read fs p)"
  shows "track_block fs p ! k = file_bytes fs p ! (44 + k)"
proof -
  have "track_block fs p ! k = payload_read fs p ! k"
    using assms by (simp add: track_block_def nth_append)
  also have "\<dots> = drop 44 (file_bytes fs p) ! k"
    using assms by (simp add: payload_read_def)
  also have "\<dots> = file_bytes fs p ! (44 + k)"
  proof -
    have "k < length (file_bytes fs p) - 44"
      using assms by (simp add: payload_read_length)
    then have "44 \<le> length (file_bytes fs p)" by simp
    then show ?thesis by (rule nth_drop)
  qed
  finally show ?thesis .
qed

lemma track_block_nth_padding:
  assumes "length (payload_read fs p) \<le> k" and "k < track_alignedSize fs p"
  shows "track_block fs p ! k = CHR 0x00"
  using assms by (simp add: track_block_def nth_append)

lemma length_concat_blocks:
  assumes "\<forall>p \<in> set ps. valid_wav fs p"
  shows "length (concat (map (track_block fs) ps)) = sum_list (map (track_alignedSize fs) ps)"
  using assms by (induction ps) (simp_all add: track_block_length)

lemma convertWAVToBIN_valid:
  assumes "writable fs binFilePath" and "\<forall>p \<in> set ps. valid_wav fs p"
  shows "convertWAVToBIN fs ps binFilePath tracks0 =
     \<lparr> bin_data = Some (concat (map (track_block fs) ps)),
       tracks_out = tracks0 @
         map (\<lambda>i. \<lparr> title = stem (ps ! i),
                     offsetFrames = word_of_nat (sum_list (map (track_frames fs) (take i ps))) \<rparr>)
           [0..<length ps],
       raised = None \<rparr>"
  using assms by (simp add: convertWAVToBIN_def convert_loop_valid)

text \<open>
  For every sequence of input files that open, hold the 44 header bytes, pass the checks
  and declare at most 4294966032 bytes each, and a BIN path that opens, the conversion
  raises nothing and the BIN file is the concatenation, in input order, of the blocks of
  the files; its length is the sum of the aligned sizes.  The block of a file has the
  aligned size of the file, starts with the bytes the read delivered (the declared size
  or what is left of the file after the header, whichever is less), copied unchanged,
  and is zero from there to its end, so in particular at the positions from the declared
  size to the aligned size.
\<close>

lemma bin_is_concatenation:
  assumes "writable fs binFilePath" and "\<forall>p \<in> set wavFilePaths. valid_wav fs p"
  shows "raised (convertWAVToBIN fs wavFilePaths binFilePath tracks0) = None \<and>
    bin_data (convertWAVToBIN fs wavFilePaths binFilePath tracks0)
      = Some (concat (map (track_block fs) wavFilePaths)) \<and>
    length (concat (map (track_block fs) wavFilePaths))
      = sum_list (map (track_alignedSize fs) wavFilePaths) \<and>
    (\<forall>p \<in> set wavFilePaths.
       length (track_block fs p) = track_alignedSize fs p \<and>
       length (payload_read fs p) = min (declared_size fs p) (length (file_bytes fs p) - 44) \<and>
       (\<forall>k < length (payload_read fs p). track_block fs p ! k = file_bytes fs p ! (44 + k)) \<and>
       (\<forall>k. length (payload_read fs p) \<le> k \<and> k < track_alignedSize fs p
          \<longrightarrow> track_block fs p ! k = CHR 0x00))"
proof (intro conjI ballI allI impI)
  show "raised (convertWAVToBIN fs wavFilePaths binFilePath tracks0) = None"
    by (simp add: convertWAVToBIN_valid [OF assms])
  show "bin_data (convertWAVToBIN fs wavFilePaths binFilePath tracks0)
      = Some (concat (map (track_block fs) wavFilePaths))"
    by (simp add: convertWAVToBIN_valid [OF assms])
  show "length (concat (map (track_block fs) wavFilePaths))
      = sum_list (map (track_alignedSize fs) wavFilePaths)"
    using assms(2) by (rule length_concat_blocks)
next
  fix p assume "p \<in> set wavFilePaths"
  then have "valid_wav fs p" using assms(2) by blast
  then show "length (track_block fs p) = track_alignedSize fs p"
    by (rule track_block_length)
next
  fix p
  show "length (payload_read fs p) = min (declared_size fs p) (length (file_bytes fs p) - 44)"
    by (rule payload_read_length)
next
  fix p k assume "k < length (payload_read fs p)"
  then show "track_block fs p ! k = file_bytes fs p ! (44 + k)"
    by (rule track_block_nth_payload)
next
  fix p k assume "length (payload_read fs p) \<le> k \<and> k < track_alignedSize fs p"
  then show "track_block fs p ! k = CHR 0x00"
    by (simp add: track_block_nth_padding)
qed

lemma example_valid:
  "valid_wav example_fs ''a.wav''" "valid_wav example_fs ''music/b.wav''"
  "valid_wav example_fs ''empty.wav''"
  by (simp_all add: valid_wav_def example_fs_def file_bytes_def header_ok_def declared_size_def
        read_header_def field_def wav_header_def le32_def le16_def
        track_a_def track_b_def track_empty_def)

lemma example_blocks:
  "track_block example_fs ''a.wav'' = ''abc'' @ replicate 2349 (CHR 0x00)"
  "track_block example_fs ''music/b.wav'' = ''de'' @ replicate 2350 (CHR 0x00)"
  "track_block example_fs ''empty.wav'' = []"
  by (simp_all add: track_block_def payload_read_def track_alignedSize_def alignedSize_eq
        example_fs_def file_bytes_def declared_size_def
        read_header_def field_def wav_header_def le32_def le16_def
        track_a_def track_b_def track_empty_def)

lemma bin_is_concatenation_example:
  "writable example_fs ''out.bin'' \<and>
   valid_wav example_fs ''a.wav'' \<and> valid_wav example_fs ''music/b.wav'' \<and>
   bin_data (convertWAVToBIN example_fs [''a.wav'', ''music/b.wav''] ''out.bin'' [])
     = Some (''abc'' @ replicate 2349 (CHR 0x00) @ ''de'' @ replicate 2350 (CHR 0x00)) \<and>
   length (''abc'' @ replicate 2349 (CHR 0x00) @ ''de'' @ replicate 2350 (CHR 0x00)) = 4704"
proof -
  have w: "writable example_fs ''out.bin''" by (simp add: example_fs_def)
  have v: "\<forall>p \<in> set [''a.wav'', ''music/b.wav'']. valid_wav example_fs p"
    by (simp add: example_valid)
  show ?thesis
    using bin_is_concatenation [OF w v, of "[]"] w by (simp add: example_valid example_blocks)
qed

subsection \<open>The track list\<close>

lemma sum_list_take_nth:
  "i \<le> length xs \<Longrightarrow> sum_list (map f (take i xs)) = (\<Sum>j<i. f (xs ! j))"
proof (induction i)
  case 0
  show ?case by simp
next
  case (Suc i)
  then have "take (Suc i) xs = take i xs @ [xs ! i]"
    by (simp add: take_Suc_conv_app_nth)
  then show ?case using Suc by simp
qed

lemma track_alignedSize_multiple:
  "valid_wav fs p \<Longrightarrow> track_alignedSize fs p mod 2352 = 0"
  by (simp add: track_alignedSize_valid)

lemma tracks_out_nth:
  assumes "writable fs binFilePath" and "\<forall>p \<in> set ps. valid_wav fs p" and "i < length ps"
  shows "tracks_out (convertWAVToBIN fs ps binFilePath []) ! i =
     \<lparr> title = stem (ps ! i),
       offsetFrames = word_of_nat (\<Sum>j<i. track_alignedSize fs (ps ! j) div 2352) \<rparr>"
proof -
  have "sum_list (map (track_frames fs) (take i ps)) = (\<Sum>j<i. track_frames fs (ps ! j))"
    using assms(3) by (intro sum_list_take_nth) simp
  then show ?thesis
    using assms(3) by (simp add: convertWAVToBIN_valid [OF assms(1,2)] track_frames_def)
qed

text \<open>
  C3, as amended.  For every sequence of valid input files the conversion records one
  track per file, titled with the stem of its path, and \<open>offsetFrames\<close> of track \<open>i\<close> is
  the sum of \<open>alignedSize / 2352\<close> over the tracks before it, reduced modulo \<open>2\<^sup>3\<^sup>2\<close>
  (the counter is a \<^verbatim>\<open>uint32_t\<close>): it is that sum whenever the sum is below \<open>2\<^sup>3\<^sup>2\<close>.
  Every aligned size is a multiple of 2352, so the divisions are exact, and the offset of
  track 0 is 0.
\<close>

theorem offsets_are_cumulative:
  assumes "writable fs binFilePath" and "\<forall>p \<in> set wavFilePaths. valid_wav fs p"
  shows "length (tracks_out (convertWAVToBIN fs wavFilePaths binFilePath [])) = length wavFilePaths \<and>
    (\<forall>i < length wavFilePaths.
       title (tracks_out (convertWAVToBIN fs wavFilePaths binFilePath []) ! i) = stem (wavFilePaths ! i) \<and>
       unat (offsetFrames (tracks_out (convertWAVToBIN fs wavFilePaths binFilePath []) ! i))
         = (\<Sum>j<i. track_alignedSize fs (wavFilePaths ! j) div 2352) mod 2 ^ 32 \<and>
       ((\<Sum>j<i. track_alignedSize fs (wavFilePaths ! j) div 2352) < 2 ^ 32 \<longrightarrow>
          unat (offsetFrames (tracks_out (convertWAVToBIN fs wavFilePaths binFilePath []) ! i))
            = (\<Sum>j<i. track_alignedSize fs (wavFilePaths ! j) div 2352)) \<and>
       track_alignedSize fs (wavFilePaths ! i) mod 2352 = 0) \<and>
    (wavFilePaths \<noteq> [] \<longrightarrow>
       offsetFrames (tracks_out (convertWAVToBIN fs wavFilePaths binFilePath []) ! 0) = 0)"
proof (intro conjI allI impI)
  show "length (tracks_out (convertWAVToBIN fs wavFilePaths binFilePath [])) = length wavFilePaths"
    by (simp add: convertWAVToBIN_valid [OF assms])
next
  fix i assume i: "i < length wavFilePaths"
  note nth = tracks_out_nth [OF assms i]
  show "title (tracks_out (convertWAVToBIN fs wavFilePaths binFilePath []) ! i) = stem (wavFilePaths ! i)"
    by (simp add: nth)
  show u: "unat (offsetFrames (tracks_out (convertWAVToBIN fs wavFilePaths binFilePath []) ! i))
         = (\<Sum>j<i. track_alignedSize fs (wavFilePaths ! j) div 2352) mod 2 ^ 32"
    by (simp only: nth TrackInfo.select_convs unat_of_nat) simp
  show "track_alignedSize fs (wavFilePaths ! i) mod 2352 = 0"
    using assms(2) i by (intro track_alignedSize_multiple) simp
  assume "(\<Sum>j<i. track_alignedSize fs (wavFilePaths ! j) div 2352) < 2 ^ 32"
  then show "unat (offsetFrames (tracks_out (convertWAVToBIN fs wavFilePaths binFilePath []) ! i))
            = (\<Sum>j<i. track_alignedSize fs (wavFilePaths ! j) div 2352)"
    by (simp only: u mod_less)
next
  assume "wavFilePaths \<noteq> []"
  then have "0 < length wavFilePaths" by simp
  from tracks_out_nth [OF assms this]
  show "offsetFrames (tracks_out (convertWAVToBIN fs wavFilePaths binFilePath []) ! 0) = 0"
    by simp
qed

theorem offsets_are_cumulative_witness:
  "writable example_fs ''out.bin'' \<and>
   valid_wav example_fs ''a.wav'' \<and> valid_wav example_fs ''music/b.wav'' \<and>
   unat (offsetFrames (tracks_out
      (convertWAVToBIN example_fs [''a.wav'', ''music/b.wav''] ''out.bin'' []) ! 1)) = 1 \<and>
   track_alignedSize example_fs ''a.wav'' div 2352 = 1 \<and>
   offsetFrames (tracks_out
      (convertWAVToBIN example_fs [''a.wav'', ''music/b.wav''] ''out.bin'' []) ! 0) = 0"
proof -
  have w: "writable example_fs ''out.bin''" by (simp add: example_fs_def)
  have v: "\<forall>p \<in> set [''a.wav'', ''music/b.wav'']. valid_wav example_fs p"
    by (simp add: example_valid)
  have "declared_size example_fs ''a.wav'' = 3"
    by (simp add: declared_size_def example_fs_def file_bytes_def read_header_def field_def
          wav_header_def le32_def track_a_def)
  then have a: "track_alignedSize example_fs ''a.wav'' = 2352"
    by (simp add: track_alignedSize_valid [OF example_valid(1)])
  show ?thesis
    using offsets_are_cumulative [OF w v] w by (simp add: example_valid a)
qed

text \<open>
  The claim as stated, with the plain sum, fails once the sum reaches \<open>2\<^sup>3\<^sup>2\<close>: after 2353
  tracks of 1826091 frames the sum is 4296792123 and the counter holds 1824827.
\<close>

lemma big_valid: "valid_wav big_fs p"
  by (simp add: valid_wav_def big_fs_def file_bytes_def header_ok_def declared_size_def
        read_header_def field_def wav_header_def le32_def le16_def)

lemma big_frames: "track_alignedSize big_fs p div 2352 = 1826091"
proof -
  have "declared_size big_fs p = 4294966032"
    by (simp add: declared_size_def big_fs_def file_bytes_def read_header_def field_def
          wav_header_def le32_def)
  then show ?thesis
    by (simp add: track_alignedSize_valid [OF big_valid])
qed

theorem offset_wraps_counterexample:
  "valid_wav big_fs ''a.wav'' \<and>
   2353 * (track_alignedSize big_fs ''a.wav'' div 2352) = 4296792123 \<and>
   unat (offsetFrames (tracks_out
      (convertWAVToBIN big_fs (replicate 2354 ''a.wav'') ''out.bin'' []) ! 2353)) = 1824827"
proof -
  have w: "writable big_fs ''out.bin''" by (simp add: big_fs_def)
  have v: "\<forall>p \<in> set (replicate 2354 ''a.wav''). valid_wav big_fs p"
    by (simp add: big_valid)
  have i: "2353 < length (replicate 2354 ''a.wav'')" by simp
  have "(\<Sum>j<2353. track_alignedSize big_fs (replicate 2354 ''a.wav'' ! j) div 2352)
      = (\<Sum>j<(2353::nat). 1826091)"
    by (intro sum.cong refl) (simp add: big_frames)
  also have "\<dots> = 4296792123" by simp
  finally have s: "(\<Sum>j<2353. track_alignedSize big_fs (replicate 2354 ''a.wav'' ! j) div 2352)
      = 4296792123" .
  have "unat (offsetFrames (tracks_out
      (convertWAVToBIN big_fs (replicate 2354 ''a.wav'') ''out.bin'' []) ! 2353)) = 1824827"
    by (simp only: tracks_out_nth [OF w v i] s TrackInfo.simps unat_of_nat) simp
  then show ?thesis by (simp add: big_valid big_frames)
qed

subsection \<open>The timecode\<close>

declare decimal.simps [simp del]

lemma decimal_one_digit: "n < 10 \<Longrightarrow> decimal n = [digit_char n]"
  by (subst decimal.simps) simp

lemma decimal_more_digits:
  "10 \<le> n \<Longrightarrow> decimal n = decimal (n div 10) @ [digit_char (n mod 10)]"
  by (subst decimal.simps) simp

lemma length_decimal_pos: "1 \<le> length (decimal n)"
  by (subst decimal.simps) simp

lemma decimal_two_digits:
  assumes "10 \<le> n" and "n < 100"
  shows "decimal n = [digit_char (n div 10), digit_char (n mod 10)]"
proof -
  have "n div 10 < 10" using assms(2) by simp
  then show ?thesis
    using assms(1) by (simp add: decimal_more_digits decimal_one_digit)
qed

lemma length_decimal_ge3:
  assumes "100 \<le> n"
  shows "3 \<le> length (decimal n)"
proof -
  have "10 \<le> n" and "10 \<le> n div 10" using assms by simp_all
  then have "decimal n =
      decimal (n div 10 div 10) @ [digit_char (n div 10 mod 10)] @ [digit_char (n mod 10)]"
    by (simp add: decimal_more_digits)
  then have "length (decimal n) = length (decimal (n div 10 div 10)) + 2"
    by simp
  then show ?thesis
    using length_decimal_pos [of "n div 10 div 10"] by linarith
qed

lemma setw2_two_digits:
  assumes "n < 100"
  shows "setw2 (decimal n) = [digit_char (n div 10), digit_char (n mod 10)]"
proof (cases "n < 10")
  case True
  then show ?thesis by (simp add: setw2_def decimal_one_digit digit_char_def)
next
  case False
  then show ?thesis using assms by (simp add: setw2_def decimal_two_digits)
qed

lemma setw2_wide:
  assumes "100 \<le> n"
  shows "setw2 (decimal n) = decimal n"
  using length_decimal_ge3 [OF assms] by (simp add: setw2_def)

lemma decimal_100: "decimal 100 = ''100''"
  by (simp add: decimal.simps digit_char_def)

lemma timecode_fields:
  "timecode frames =
     setw2 (decimal (unat frames div (75 * 60))) @ '':'' @
     setw2 (decimal (unat frames div 75 mod 60)) @ '':'' @
     setw2 (decimal (unat frames mod 75))"
  by (simp add: timecode_def CD_FRAMES_PER_SECOND_def unat_div unat_mod)

text \<open>
  C4, as amended.  The INDEX timecode is \<open>MM:SS:FF\<close> with \<open>MM = offsetFrames div (75 * 60)\<close>,
  \<open>SS = offsetFrames div 75 mod 60\<close> and \<open>FF = offsetFrames mod 75\<close>, each written in
  decimal and padded with zeros to at least two digits.  \<open>SS\<close> and \<open>FF\<close> always have exactly
  two digits; \<open>MM\<close> has exactly two digits when \<open>offsetFrames\<close> is below 450000 and is
  written in full, with three digits or more, from 450000 on.  0, 75, 4500 and 80 give
  00:00:00, 00:01:00, 01:00:00 and 00:01:05.
\<close>

theorem timecode_format:
  "timecode frames =
     setw2 (decimal (unat frames div (75 * 60))) @ '':'' @
     setw2 (decimal (unat frames div 75 mod 60)) @ '':'' @
     setw2 (decimal (unat frames mod 75)) \<and>
   setw2 (decimal (unat frames div 75 mod 60)) =
     [digit_char (unat frames div 75 mod 60 div 10), digit_char (unat frames div 75 mod 60 mod 10)] \<and>
   setw2 (decimal (unat frames mod 75)) =
     [digit_char (unat frames mod 75 div 10), digit_char (unat frames mod 75 mod 10)] \<and>
   (unat frames < 450000 \<longrightarrow>
      setw2 (decimal (unat frames div (75 * 60))) =
        [digit_char (unat frames div (75 * 60) div 10), digit_char (unat frames div (75 * 60) mod 10)]) \<and>
   (450000 \<le> unat frames \<longrightarrow>
      setw2 (decimal (unat frames div (75 * 60))) = decimal (unat frames div (75 * 60)) \<and>
      3 \<le> length (decimal (unat frames div (75 * 60)))) \<and>
   timecode 0 = ''00:00:00'' \<and> timecode 75 = ''00:01:00'' \<and>
   timecode 4500 = ''01:00:00'' \<and> timecode 80 = ''00:01:05''"
proof (intro conjI impI)
  show "timecode frames =
     setw2 (decimal (unat frames div (75 * 60))) @ '':'' @
     setw2 (decimal (unat frames div 75 mod 60)) @ '':'' @
     setw2 (decimal (unat frames mod 75))"
    by (rule timecode_fields)
  show "setw2 (decimal (unat frames div 75 mod 60)) =
     [digit_char (unat frames div 75 mod 60 div 10), digit_char (unat frames div 75 mod 60 mod 10)]"
    by (rule setw2_two_digits) simp
  show "setw2 (decimal (unat frames mod 75)) =
     [digit_char (unat frames mod 75 div 10), digit_char (unat frames mod 75 mod 10)]"
    by (rule setw2_two_digits) simp
  show "timecode 0 = ''00:00:00''"
    by (simp add: timecode_fields setw2_two_digits digit_char_def)
  show "timecode 75 = ''00:01:00''"
    by (simp add: timecode_fields setw2_two_digits digit_char_def)
  show "timecode 4500 = ''01:00:00''"
    by (simp add: timecode_fields setw2_two_digits digit_char_def)
  show "timecode 80 = ''00:01:05''"
    by (simp add: timecode_fields setw2_two_digits digit_char_def)
next
  assume "unat frames < 450000"
  then have "unat frames div (75 * 60) < 100" by simp
  then show "setw2 (decimal (unat frames div (75 * 60))) =
        [digit_char (unat frames div (75 * 60) div 10), digit_char (unat frames div (75 * 60) mod 10)]"
    by (rule setw2_two_digits)
next
  assume "450000 \<le> unat frames"
  then have h: "100 \<le> unat frames div (75 * 60)" by simp
  show "setw2 (decimal (unat frames div (75 * 60))) = decimal (unat frames div (75 * 60))"
    using h by (rule setw2_wide)
  show "3 \<le> length (decimal (unat frames div (75 * 60)))"
    using h by (rule length_decimal_ge3)
qed

theorem timecode_format_witness:
  "unat (449999 :: uint32) < 450000 \<and> timecode 449999 = ''99:59:74'' \<and>
   450000 \<le> unat (450075 :: uint32) \<and>
   timecode 450075 = ''100:01:00''"
proof -
  have a: "unat (449999 :: uint32) < 450000" and b: "450000 \<le> unat (450075 :: uint32)"
    by simp_all
  show ?thesis
    using timecode_format [of 449999] timecode_format [of 450075] a b
    by (simp add: digit_char_def decimal_100)
qed

text \<open>
  The claim as stated, with every field exactly two digits wide, fails from 450000 frames
  (100 minutes) on.
\<close>

theorem timecode_three_digit_minutes_counterexample:
  "timecode 450000 = ''100:00:00'' \<and> length (timecode 450000) = 9"
  by (simp add: timecode_fields setw2_two_digits digit_char_def decimal_100)
    (simp add: setw2_def)

subsection \<open>The CUE sheet\<close>

lemma cue_tracks_concat:
  "cue_tracks n tracklist = concat (map (\<lambda>i. cue_track (n + i) (tracklist ! i)) [0..<length tracklist])"
proof (induction tracklist arbitrary: n)
  case Nil
  show ?case by simp
next
  case (Cons t ts)
  show ?case
    by (simp only: cue_tracks.simps Cons.IH length_Cons map_upt_Suc0) simp
qed

text \<open>
  C5, as amended.  The CUE sheet is one FILE line holding \<open>binFileName\<close> as supplied
  between double quotes, followed for each track, in order, by three lines: TRACK with the
  1-based number of the track written in plain decimal (no padding: a single digit up to
  track 9), TITLE with the title between double quotes, and INDEX 01 with the timecode.
\<close>

theorem cue_sheet_format:
  "cue_text binFileName tracklist =
     ''FILE '' @ [dquote] @ binFileName @ [dquote] @ '' BINARY'' @ [newline] @
     concat (map (\<lambda>i.
        ''  TRACK '' @ decimal (i + 1) @ '' AUDIO'' @ [newline] @
        ''    TITLE '' @ [dquote] @ title (tracklist ! i) @ [dquote] @ [newline] @
        ''    INDEX 01 '' @ timecode (offsetFrames (tracklist ! i)) @ [newline])
       [0..<length tracklist]) \<and>
   (writable fs cueFilePath \<longrightarrow>
      writeCUEFile fs cueFilePath binFileName tracklist = Inr (cue_text binFileName tracklist)) \<and>
   (\<forall>i < 9. length (decimal (i + 1)) = 1) \<and>
   decimal 1 = ''1'' \<and> decimal 2 = ''2'' \<and> decimal 10 = ''10''"
proof (intro conjI impI allI)
  show "cue_text binFileName tracklist =
     ''FILE '' @ [dquote] @ binFileName @ [dquote] @ '' BINARY'' @ [newline] @
     concat (map (\<lambda>i.
        ''  TRACK '' @ decimal (i + 1) @ '' AUDIO'' @ [newline] @
        ''    TITLE '' @ [dquote] @ title (tracklist ! i) @ [dquote] @ [newline] @
        ''    INDEX 01 '' @ timecode (offsetFrames (tracklist ! i)) @ [newline])
       [0..<length tracklist])"
    by (simp add: cue_text_def cue_tracks_concat cue_track_def)
  show "decimal 1 = ''1''" by (simp add: decimal_one_digit digit_char_def)
  show "decimal 2 = ''2''" by (simp add: decimal_one_digit digit_char_def)
  show "decimal 10 = ''10''" by (simp add: decimal_two_digits digit_char_def)
next
  assume "writable fs cueFilePath"
  then show "writeCUEFile fs cueFilePath binFileName tracklist = Inr (cue_text binFileName tracklist)"
    by (simp add: writeCUEFile_def)
next
  fix i :: nat assume "i < 9"
  then show "length (decimal (i + 1)) = 1"
    by (simp add: decimal_one_digit)
qed

theorem cue_sheet_format_witness:
  "writable example_fs ''out.cue'' \<and>
   writeCUEFile example_fs ''out.cue'' ''dir/out.bin''
       [\<lparr>title = ''a'', offsetFrames = 0\<rparr>, \<lparr>title = ''b'', offsetFrames = 80\<rparr>] =
     Inr (''FILE '' @ [CHR 0x22] @ ''dir/out.bin'' @ [CHR 0x22] @ '' BINARY'' @ [CHR 0x0A] @
          ''  TRACK 1 AUDIO'' @ [CHR 0x0A] @
          ''    TITLE '' @ [CHR 0x22] @ ''a'' @ [CHR 0x22] @ [CHR 0x0A] @
          ''    INDEX 01 00:00:00'' @ [CHR 0x0A] @
          ''  TRACK 2 AUDIO'' @ [CHR 0x0A] @
          ''    TITLE '' @ [CHR 0x22] @ ''b'' @ [CHR 0x22] @ [CHR 0x0A] @
          ''    INDEX 01 00:01:05'' @ [CHR 0x0A])"
proof -
  have w: "writable example_fs ''out.cue''" by (simp add: example_fs_def)
  have c: "writeCUEFile example_fs ''out.cue'' ''dir/out.bin''
       [\<lparr>title = ''a'', offsetFrames = 0\<rparr>, \<lparr>title = ''b'', offsetFrames = 80\<rparr>] =
     Inr (cue_text ''dir/out.bin''
       [\<lparr>title = ''a'', offsetFrames = 0\<rparr>, \<lparr>title = ''b'', offsetFrames = 80\<rparr>])"
    using cue_sheet_format [of "''dir/out.bin''"
        "[\<lparr>title = ''a'', offsetFrames = 0\<rparr>, \<lparr>title = ''b'', offsetFrames = 80\<rparr>]"
        example_fs "''out.cue''"] w
    by blast
  have d: "decimal (Suc 0) = ''1''" "decimal (Suc (Suc 0)) = ''2''"
    by (simp_all add: decimal_one_digit digit_char_def)
  have t: "timecode 0 = ''00:00:00''" "timecode 80 = ''00:01:05''"
    by (simp_all add: timecode_fields setw2_two_digits digit_char_def)
  show ?thesis
    by (simp add: c w cue_text_def cue_track_def d t dquote_def newline_def)
qed

text \<open>
  The claim as stated has the track number in two digits; the sheet of a single track
  holds \<open>TRACK 1 AUDIO\<close>, not \<open>TRACK 01 AUDIO\<close>.
\<close>

theorem track_number_unpadded_counterexample:
  "cue_text ''out.bin'' [\<lparr>title = ''a'', offsetFrames = 0\<rparr>] =
     ''FILE '' @ [CHR 0x22] @ ''out.bin'' @ [CHR 0x22] @ '' BINARY'' @ [CHR 0x0A] @
     ''  TRACK 1 AUDIO'' @ [CHR 0x0A] @
     ''    TITLE '' @ [CHR 0x22] @ ''a'' @ [CHR 0x22] @ [CHR 0x0A] @
     ''    INDEX 01 00:00:00'' @ [CHR 0x0A] \<and>
   cue_text ''out.bin'' [\<lparr>title = ''a'', offsetFrames = 0\<rparr>] \<noteq>
     ''FILE '' @ [CHR 0x22] @ ''out.bin'' @ [CHR 0x22] @ '' BINARY'' @ [CHR 0x0A] @
     ''  TRACK 01 AUDIO'' @ [CHR 0x0A] @
     ''    TITLE '' @ [CHR 0x22] @ ''a'' @ [CHR 0x22] @ [CHR 0x0A] @
     ''    INDEX 01 00:00:00'' @ [CHR 0x0A]"
proof -
  have d: "decimal (Suc 0) = ''1''"
    by (simp add: decimal_one_digit digit_char_def)
  have t: "timecode 0 = ''00:00:00''"
    by (simp add: timecode_fields setw2_two_digits digit_char_def)
  show ?thesis
    by (simp add: cue_text_def cue_track_def d t dquote_def newline_def)
qed

subsection \<open>Validation and errors\<close>



lemma example_bad_header:
  "contents example_fs ''bad.wav'' = Some not_riff"
  "chunkID (read_header not_riff) = ''RIFX''"
  "length not_riff = 47"
  by (simp_all add: example_fs_def read_header_def field_def wav_header_def not_riff_def track_a_def)

lemma example_good_header:
  "contents example_fs ''a.wav'' = Some track_a"
  "header_ok (read_header track_a)"
  "subchunk2Size (read_header track_a) = 3"
  "length track_a = 47"
  "drop 44 track_a = ''abc''"
  by (simp_all add: example_fs_def header_ok_def read_header_def field_def wav_header_def
        le32_def le16_def track_a_def)

lemma example_a_aligned: "track_alignedSize example_fs ''a.wav'' = 2352"
proof -
  have "declared_size example_fs ''a.wav'' = 3"
    by (simp add: declared_size_def file_bytes_def example_good_header)
  then show ?thesis
    by (simp add: track_alignedSize_valid [OF example_valid(1)])
qed

lemma stem_a: "stem ''a.wav'' = ''a''"
  by (simp add: stem_def filename_def)


text \<open>
  Beyond that size the overflow of line 87 takes over: a header that passes the checks
  and declares 4294967295 bytes is not rejected, but the loop body then converts
  4294968384 to \<^verbatim>\<open>uint32_t\<close> and nothing is defined from there on.
\<close>

lemma overflow_header:
  "header_ok (read_header track_overflow)"
  "subchunk2Size (read_header track_overflow) = 4294967295"
  "length track_overflow = 47"
  by (simp_all add: header_ok_def read_header_def field_def wav_header_def le32_def le16_def
        track_overflow_def)

lemma loop_body_overflow:
  "contents overflow_fs ''a.wav'' = Some track_overflow \<and>
   header_ok (read_header track_overflow) \<and>
   subchunk2Size (read_header track_overflow) = 4294967295 \<and>
   loop_body overflow_fs ''a.wav'' initial_state = Inl UndefinedBehaviour"
proof -
  have c: "contents overflow_fs ''a.wav'' = Some track_overflow"
    by (simp add: overflow_fs_def)
  have hd: "chunkID (read_header track_overflow) = ''RIFF''"
    "format (read_header track_overflow) = ''WAVE''"
    "audioFormat (read_header track_overflow) = 1"
    using overflow_header(1) by (simp_all add: header_ok_def)
  have a: "alignedSize 4294967295 = None"
    by (simp add: alignedSize_eq)
  have "loop_body overflow_fs ''a.wav'' initial_state = Inl UndefinedBehaviour"
    by (simp add: loop_body_def c Let_def read_header_take hd overflow_header a)
  then show ?thesis
    by (simp add: c overflow_header)
qed

subsection \<open>The BIN file above the largest aligned size\<close>

text \<open>
  C2.  The BIN file is to be the concatenation of one zero-padded block of
  \<^verbatim>\<open>alignedSize\<close> bytes per valid input file, of total length the sum of the aligned
  sizes.  The code does not deliver this for every file that passes its checks: for the
  47-byte file \<open>track_overflow\<close>, whose header is canonical PCM and declares 4294967295
  bytes, line 87 has no value for \<^verbatim>\<open>alignedSize\<close> (the \<^verbatim>\<open>double\<close> 4294968384 is outside
  \<^verbatim>\<open>uint32_t\<close>), so the conversion is undefined from that line on: no block of a
  multiple of 2352 bytes that holds the declared payload is written, no track is
  recorded, and nothing is raised that \<^verbatim>\<open>main\<close> could report.  This is the defect of C1
  seen from the BIN file; up to 4294966032 declared bytes the BIN file is as claimed
  (\<open>bin_is_concatenation\<close>).
\<close>

theorem bin_undefined_above_aligned_range:
  "writable overflow_fs ''out.bin'' \<and>
   contents overflow_fs ''a.wav'' = Some track_overflow \<and>
   length track_overflow = 47 \<and>
   header_ok (read_header track_overflow) \<and>
   declared_size overflow_fs ''a.wav'' = 4294967295 \<and>
   alignedSize (subchunk2Size (read_header track_overflow)) = None \<and>
   convertWAVToBIN overflow_fs [''a.wav''] ''out.bin'' [] =
     \<lparr> bin_data = Some [], tracks_out = [], raised = Some UndefinedBehaviour \<rparr>"
proof -
  have w: "writable overflow_fs ''out.bin''"
    by (simp add: overflow_fs_def)
  have d: "declared_size overflow_fs ''a.wav'' = 4294967295"
    by (simp add: declared_size_def file_bytes_def conjunct1 [OF loop_body_overflow]
          overflow_header)
  have a: "alignedSize 4294967295 = None"
    by (simp add: alignedSize_eq)
  have l: "loop_body overflow_fs ''a.wav''
      \<lparr> binFile = [], tracks = [], currentOffsetFrames = 0 \<rparr> = Inl UndefinedBehaviour"
    using loop_body_overflow by (simp add: initial_state_def)
  have c: "convertWAVToBIN overflow_fs [''a.wav''] ''out.bin'' [] =
     \<lparr> bin_data = Some [], tracks_out = [], raised = Some UndefinedBehaviour \<rparr>"
    by (simp add: convertWAVToBIN_def w l)
  show ?thesis
    by (simp only: w d a c overflow_header conjunct1 [OF loop_body_overflow] simp_thms)
qed

subsection \<open>Errors stop the run\<close>

lemma convert_loop_append:
  "convert_loop fs (xs @ ys) s =
     (case convert_loop fs xs s of
        (s', None) \<Rightarrow> convert_loop fs ys s'
      | (s', Some e) \<Rightarrow> (s', Some e))"
  by (induction xs arbitrary: s) (simp_all split: sum.split)

lemma convert_loop_fails_at:
  assumes "convert_loop fs pre s = (s', None)" and "loop_body fs p s' = Inl e"
  shows "convert_loop fs (pre @ p # post) s = (s', Some e)"
  using assms by (simp add: convert_loop_append)

lemma convertWAVToBIN_fails_at:
  assumes w: "writable fs binFilePath"
    and pre: "raised (convertWAVToBIN fs pre binFilePath tracks0) = None"
    and e: "\<And>s. loop_body fs p s = Inl e"
  shows "convertWAVToBIN fs (pre @ p # post) binFilePath tracks0 =
     (convertWAVToBIN fs pre binFilePath tracks0) \<lparr> raised := Some e \<rparr>"
proof -
  obtain s' r where c: "convert_loop fs pre
      \<lparr> binFile = [], tracks = tracks0, currentOffsetFrames = 0 \<rparr> = (s', r)"
    by (cases "convert_loop fs pre \<lparr> binFile = [], tracks = tracks0, currentOffsetFrames = 0 \<rparr>")
  have "r = None" using pre w by (simp add: convertWAVToBIN_def c)
  then have "convert_loop fs (pre @ p # post)
      \<lparr> binFile = [], tracks = tracks0, currentOffsetFrames = 0 \<rparr> = (s', Some e)"
    using c e by (intro convert_loop_fails_at) simp_all
  then show ?thesis using w c by (simp add: convertWAVToBIN_def)
qed

lemma main_args:
  "wavFilePaths \<noteq> [] \<Longrightarrow>
   main fs prog (binFilePath # cueFilePath # wavFilePaths) =
     (case raised (convertWAVToBIN fs wavFilePaths binFilePath []) of
        Some UndefinedBehaviour \<Rightarrow> None
      | Some (RuntimeError msg) \<Rightarrow>
          Some (error_exit msg (bin_data (convertWAVToBIN fs wavFilePaths binFilePath [])))
      | None \<Rightarrow>
          (case writeCUEFile fs cueFilePath binFilePath
                  (tracks_out (convertWAVToBIN fs wavFilePaths binFilePath [])) of
             Inl UndefinedBehaviour \<Rightarrow> None
           | Inl (RuntimeError msg) \<Rightarrow>
               Some (error_exit msg (bin_data (convertWAVToBIN fs wavFilePaths binFilePath [])))
           | Inr text \<Rightarrow>
               Some \<lparr> exit_code = 0,
                      stdout = ''Conversion completed successfully.'' @ [newline],
                      stderr = [],
                      bin_file = bin_data (convertWAVToBIN fs wavFilePaths binFilePath []),
                      cue_file = Some text \<rparr>))"
  by (simp add: main_def Let_def)

text \<open>
  C7.  When the files before \<open>p\<close> are converted without an exception and \<open>p\<close> cannot be
  opened, or opens and has a header that fails the checks, the conversion of any list
  that continues with \<open>p\<close> throws at \<open>p\<close>: the exception carries the message with the
  path, the track list and the BIN file are what the files before \<open>p\<close> left (no track
  for \<open>p\<close>, the earlier blocks in place), and the files after \<open>p\<close> have no influence.
  The driver prints \<open>Error:\<close> and that message on stderr, writes no CUE sheet and
  returns 1.
\<close>

theorem error_stops_conversion:
  assumes "writable fs binFilePath"
    and "raised (convertWAVToBIN fs pre binFilePath tracks0) = None"
    and "contents fs p = None \<or>
         (\<exists>bytes. contents fs p = Some bytes \<and> 44 \<le> length bytes \<and> \<not> header_ok (read_header bytes))"
  shows
    "raised (convertWAVToBIN fs (pre @ p # post) binFilePath tracks0) =
       Some (RuntimeError
         ((if contents fs p = None then ''Failed to open WAV file: ''
           else ''Invalid or unsupported WAV file format: '') @ p)) \<and>
     tracks_out (convertWAVToBIN fs (pre @ p # post) binFilePath tracks0) =
       tracks_out (convertWAVToBIN fs pre binFilePath tracks0) \<and>
     bin_data (convertWAVToBIN fs (pre @ p # post) binFilePath tracks0) =
       bin_data (convertWAVToBIN fs pre binFilePath tracks0) \<and>
     (tracks0 = [] \<longrightarrow>
        main fs prog (binFilePath # cueFilePath # pre @ p # post) =
          Some \<lparr> exit_code = 1, stdout = [],
                 stderr = ''Error: '' @
                   (if contents fs p = None then ''Failed to open WAV file: ''
                    else ''Invalid or unsupported WAV file format: '') @ p @ [newline],
                 bin_file = bin_data (convertWAVToBIN fs pre binFilePath []),
                 cue_file = None \<rparr>)"
proof -
  define e where "e = RuntimeError
         ((if contents fs p = None then ''Failed to open WAV file: ''
           else ''Invalid or unsupported WAV file format: '') @ p)"
  have "loop_body fs p s = Inl e" for s
  proof (cases "contents fs p")
    case None
    then show ?thesis by (simp add: loop_body_unopenable e_def)
  next
    case (Some bytes)
    then have "44 \<le> length bytes" and "\<not> header_ok (read_header bytes)"
      using assms(3) by simp_all
    from loop_body_invalid [OF Some this] show ?thesis
      by (simp add: Some e_def invalid_format_def)
  qed
  then have c: "convertWAVToBIN fs (pre @ p # post) binFilePath tracks0 =
     (convertWAVToBIN fs pre binFilePath tracks0) \<lparr> raised := Some e \<rparr>"
    by (intro convertWAVToBIN_fails_at assms(1,2))
  have m: "main fs prog (binFilePath # cueFilePath # pre @ p # post) =
      Some (error_exit
        ((if contents fs p = None then ''Failed to open WAV file: ''
          else ''Invalid or unsupported WAV file format: '') @ p)
        (bin_data (convertWAVToBIN fs pre binFilePath [])))"
    if "tracks0 = []"
    using c that by (simp add: main_args e_def)
  show ?thesis
  proof (intro conjI impI)
    show "raised (convertWAVToBIN fs (pre @ p # post) binFilePath tracks0) =
       Some (RuntimeError
         ((if contents fs p = None then ''Failed to open WAV file: ''
           else ''Invalid or unsupported WAV file format: '') @ p))"
      by (simp add: c e_def)
    show "tracks_out (convertWAVToBIN fs (pre @ p # post) binFilePath tracks0) =
       tracks_out (convertWAVToBIN fs pre binFilePath tracks0)"
      by (simp add: c)
    show "bin_data (convertWAVToBIN fs (pre @ p # post) binFilePath tracks0) =
       bin_data (convertWAVToBIN fs pre binFilePath tracks0)"
      by (simp add: c)
  next
    assume "tracks0 = []"
    from m [OF this]
    show "main fs prog (binFilePath # cueFilePath # pre @ p # post) =
          Some \<lparr> exit_code = 1, stdout = [],
                 stderr = ''Error: '' @
                   (if contents fs p = None then ''Failed to open WAV file: ''
                    else ''Invalid or unsupported WAV file format: '') @ p @ [newline],
                 bin_file = bin_data (convertWAVToBIN fs pre binFilePath []),
                 cue_file = None \<rparr>"
      by (simp add: error_exit_def)
  qed
qed

lemma example_a_converted:
  "convertWAVToBIN example_fs [''a.wav''] ''out.bin'' [] =
     \<lparr> bin_data = Some (''abc'' @ replicate 2349 (CHR 0x00)),
       tracks_out = [\<lparr> title = ''a'', offsetFrames = 0 \<rparr>],
       raised = None \<rparr>"
proof -
  have w: "writable example_fs ''out.bin''" by (simp add: example_fs_def)
  have v: "\<forall>p \<in> set [''a.wav'']. valid_wav example_fs p" by (simp add: example_valid)
  have u: "[0..<Suc 0] = [0]" by simp
  show ?thesis
    by (simp only: convertWAVToBIN_valid [OF w v]) (simp add: example_blocks stem_a)
qed

theorem error_stops_conversion_witness:
  "writable example_fs ''out.bin'' \<and>
   raised (convertWAVToBIN example_fs [''a.wav''] ''out.bin'' []) = None \<and>
   contents example_fs ''missing.wav'' = None \<and>
   convertWAVToBIN example_fs [''a.wav'', ''missing.wav'', ''music/b.wav''] ''out.bin'' [] =
     \<lparr> bin_data = Some (''abc'' @ replicate 2349 (CHR 0x00)),
       tracks_out = [\<lparr> title = ''a'', offsetFrames = 0 \<rparr>],
       raised = Some (RuntimeError ''Failed to open WAV file: missing.wav'') \<rparr> \<and>
   main example_fs ''wav2bin'' [''out.bin'', ''out.cue'', ''a.wav'', ''missing.wav'', ''music/b.wav''] =
     Some \<lparr> exit_code = 1, stdout = [],
            stderr = ''Error: Failed to open WAV file: missing.wav'' @ [CHR 0x0A],
            bin_file = Some (''abc'' @ replicate 2349 (CHR 0x00)), cue_file = None \<rparr> \<and>
   contents example_fs ''bad.wav'' = Some not_riff \<and>
   raised (convertWAVToBIN example_fs [''a.wav'', ''bad.wav''] ''out.bin'' []) =
     Some (RuntimeError ''Invalid or unsupported WAV file format: bad.wav'')"
proof -
  have w: "writable example_fs ''out.bin''" by (simp add: example_fs_def)
  have r: "raised (convertWAVToBIN example_fs [''a.wav''] ''out.bin'' []) = None"
    by (simp add: example_a_converted)
  have m: "contents example_fs ''missing.wav'' = None" by (simp add: example_fs_def)
  have m': "contents example_fs ''missing.wav'' = None \<or>
      (\<exists>bytes. contents example_fs ''missing.wav'' = Some bytes \<and> 44 \<le> length bytes \<and>
         \<not> header_ok (read_header bytes))"
    using m by simp
  have b': "contents example_fs ''bad.wav'' = None \<or>
      (\<exists>bytes. contents example_fs ''bad.wav'' = Some bytes \<and> 44 \<le> length bytes \<and>
         \<not> header_ok (read_header bytes))"
    by (simp add: example_bad_header header_ok_def)
  note t1 = error_stops_conversion [OF w r m', where post = "[''music/b.wav'']"
      and prog = "''wav2bin''" and cueFilePath = "''out.cue''"]
  note t2 = error_stops_conversion [OF w r b', where post = "[]"]
  have c: "convertWAVToBIN example_fs [''a.wav'', ''missing.wav'', ''music/b.wav''] ''out.bin'' [] =
     \<lparr> bin_data = Some (''abc'' @ replicate 2349 (CHR 0x00)),
       tracks_out = [\<lparr> title = ''a'', offsetFrames = 0 \<rparr>],
       raised = Some (RuntimeError ''Failed to open WAV file: missing.wav'') \<rparr>"
    using t1 by (intro conv_result.equality) (simp_all add: m example_a_converted)
  have d: "main example_fs ''wav2bin'' [''out.bin'', ''out.cue'', ''a.wav'', ''missing.wav'', ''music/b.wav''] =
     Some \<lparr> exit_code = 1, stdout = [],
            stderr = ''Error: Failed to open WAV file: missing.wav'' @ [CHR 0x0A],
            bin_file = Some (''abc'' @ replicate 2349 (CHR 0x00)), cue_file = None \<rparr>"
    using t1 by (simp add: m example_a_converted newline_def)
  have e: "raised (convertWAVToBIN example_fs [''a.wav'', ''bad.wav''] ''out.bin'' []) =
     Some (RuntimeError ''Invalid or unsupported WAV file format: bad.wav'')"
    using t2 by (simp add: example_bad_header)
  show ?thesis
    by (simp only: w r m c d e example_bad_header(1) simp_thms)
qed

subsection \<open>The exit status\<close>





subsection \<open>Empty tracks\<close>

lemma zero_size_valid:
  assumes "contents fs p = Some bytes" and "44 \<le> length bytes"
    and "header_ok (read_header bytes)" and "subchunk2Size (read_header bytes) = 0"
  shows "valid_wav fs p" and "track_alignedSize fs p = 0" and "track_block fs p = []"
proof -
  show v: "valid_wav fs p"
    using assms by (simp add: valid_wav_def file_bytes_def declared_size_def)
  have d: "declared_size fs p = 0"
    using assms by (simp add: declared_size_def file_bytes_def)
  show a: "track_alignedSize fs p = 0"
    by (simp add: track_alignedSize_valid [OF v] d)
  show "track_block fs p = []"
    by (simp add: track_block_def payload_read_def a d)
qed

text \<open>
  C9.  A file that passes the checks and declares \<open>subchunk2Size = 0\<close> is accepted: the
  loop body appends no byte to the BIN file, records a track whose \<open>offsetFrames\<close> is the
  running counter, and leaves the counter as it was.  A valid file that follows it
  therefore gets the same \<open>offsetFrames\<close>, and the two INDEX timecodes are equal.
\<close>

theorem zero_length_track:
  assumes "contents fs p = Some bytes" and "44 \<le> length bytes"
    and "header_ok (read_header bytes)" and "subchunk2Size (read_header bytes) = 0"
  shows
    "loop_body fs p s =
       Inr \<lparr> binFile = binFile s,
             tracks = tracks s @ [\<lparr> title = stem p, offsetFrames = currentOffsetFrames s \<rparr>],
             currentOffsetFrames = currentOffsetFrames s \<rparr> \<and>
     (valid_wav fs q \<longrightarrow>
        convert_loop fs [p, q] s =
          (\<lparr> binFile = binFile s @ track_block fs q,
             tracks = tracks s @
               [\<lparr> title = stem p, offsetFrames = currentOffsetFrames s \<rparr>,
                \<lparr> title = stem q, offsetFrames = currentOffsetFrames s \<rparr>],
             currentOffsetFrames = currentOffsetFrames s
               + word_of_nat (track_alignedSize fs q div 2352) \<rparr>, None) \<and>
        cue_tracks n [\<lparr> title = stem p, offsetFrames = currentOffsetFrames s \<rparr>,
                      \<lparr> title = stem q, offsetFrames = currentOffsetFrames s \<rparr>] =
          ''  TRACK '' @ decimal (n + 1) @ '' AUDIO'' @ [newline] @
          ''    TITLE '' @ [dquote] @ stem p @ [dquote] @ [newline] @
          ''    INDEX 01 '' @ timecode (currentOffsetFrames s) @ [newline] @
          ''  TRACK '' @ decimal (n + 2) @ '' AUDIO'' @ [newline] @
          ''    TITLE '' @ [dquote] @ stem q @ [dquote] @ [newline] @
          ''    INDEX 01 '' @ timecode (currentOffsetFrames s) @ [newline])"
proof (intro conjI impI)
  note z = zero_size_valid [OF assms]
  show b: "loop_body fs p s =
       Inr \<lparr> binFile = binFile s,
             tracks = tracks s @ [\<lparr> title = stem p, offsetFrames = currentOffsetFrames s \<rparr>],
             currentOffsetFrames = currentOffsetFrames s \<rparr>"
    by (simp add: loop_body_valid [OF z(1)] z)
  show "cue_tracks n [\<lparr> title = stem p, offsetFrames = currentOffsetFrames s \<rparr>,
                      \<lparr> title = stem q, offsetFrames = currentOffsetFrames s \<rparr>] =
          ''  TRACK '' @ decimal (n + 1) @ '' AUDIO'' @ [newline] @
          ''    TITLE '' @ [dquote] @ stem p @ [dquote] @ [newline] @
          ''    INDEX 01 '' @ timecode (currentOffsetFrames s) @ [newline] @
          ''  TRACK '' @ decimal (n + 2) @ '' AUDIO'' @ [newline] @
          ''    TITLE '' @ [dquote] @ stem q @ [dquote] @ [newline] @
          ''    INDEX 01 '' @ timecode (currentOffsetFrames s) @ [newline]"
    by (simp add: cue_track_def)
  assume q: "valid_wav fs q"
  show "convert_loop fs [p, q] s =
          (\<lparr> binFile = binFile s @ track_block fs q,
             tracks = tracks s @
               [\<lparr> title = stem p, offsetFrames = currentOffsetFrames s \<rparr>,
                \<lparr> title = stem q, offsetFrames = currentOffsetFrames s \<rparr>],
             currentOffsetFrames = currentOffsetFrames s
               + word_of_nat (track_alignedSize fs q div 2352) \<rparr>, None)"
    by (simp add: b loop_body_valid [OF q])
qed

lemma example_empty_header:
  "contents example_fs ''empty.wav'' = Some track_empty"
  "header_ok (read_header track_empty)"
  "subchunk2Size (read_header track_empty) = 0"
  "length track_empty = 44"
  by (simp_all add: example_fs_def header_ok_def read_header_def field_def wav_header_def
        le32_def le16_def track_empty_def)

lemma stem_empty: "stem ''empty.wav'' = ''empty''"
  by (simp add: stem_def filename_def)

theorem zero_length_track_witness:
  "contents example_fs ''empty.wav'' = Some track_empty \<and> 44 \<le> length track_empty \<and>
   header_ok (read_header track_empty) \<and> subchunk2Size (read_header track_empty) = 0 \<and>
   valid_wav example_fs ''a.wav'' \<and>
   convert_loop example_fs [''empty.wav'', ''a.wav''] initial_state =
     (\<lparr> binFile = ''abc'' @ replicate 2349 (CHR 0x00),
        tracks = [\<lparr> title = ''empty'', offsetFrames = 0 \<rparr>, \<lparr> title = ''a'', offsetFrames = 0 \<rparr>],
        currentOffsetFrames = 1 \<rparr>, None)"
proof -
  have l: "44 \<le> length track_empty" by (simp add: example_empty_header)
  note t = zero_length_track [OF example_empty_header(1) l example_empty_header(2,3),
      where s = initial_state and q = "''a.wav''", THEN conjunct2]
  have "convert_loop example_fs [''empty.wav'', ''a.wav''] initial_state =
     (\<lparr> binFile = ''abc'' @ replicate 2349 (CHR 0x00),
        tracks = [\<lparr> title = ''empty'', offsetFrames = 0 \<rparr>, \<lparr> title = ''a'', offsetFrames = 0 \<rparr>],
        currentOffsetFrames = 1 \<rparr>, None)"
    using t by (simp add: example_valid example_blocks example_a_aligned stem_a stem_empty
        initial_state_def)
  then show ?thesis
    by (simp add: example_empty_header example_valid)
qed

subsection \<open>Determinism\<close>

text \<open>
  Line 78 reads the 44 bytes of the header into an uninitialised \<^verbatim>\<open>WAVHeader\<close> and
  never looks at the state of the stream.  On a file shorter than 44 bytes the fields
  past the end of the file keep whatever the stack held, and the code goes on to use
  them.
\<close>

lemma short_header:
  "length track_short = 43"
  "chunkID (read_header track_short) = ''RIFF''"
  "format (read_header track_short) = ''WAVE''"
  "audioFormat (read_header track_short) = 1"
  by (simp_all add: read_header_def field_def wav_header_def le32_def le16_def track_short_def)

text \<open>
  C10.  Two runs on the same input paths holding the same bytes are to give the same BIN
  file, the same track list and the same CUE text.  The code does not guarantee this:
  the 43-byte file \<open>track_short\<close> passes the three checks, which read bytes the file
  holds, and then line 86 reads \<^verbatim>\<open>subchunk2Size\<close>, whose last byte the file does not
  hold and nothing initialised.  The size of the block written, and with it the BIN
  file and every later offset, follows that byte, so the run has no result that its
  input determines: the loop body, the conversion and the whole run are undefined.
\<close>

theorem short_header_undefined:
  "contents short_fs ''a.wav'' = Some track_short \<and>
   length track_short = 43 \<and>
   chunkID (read_header track_short) = ''RIFF'' \<and>
   format (read_header track_short) = ''WAVE'' \<and>
   audioFormat (read_header track_short) = 1 \<and>
   loop_body short_fs ''a.wav'' initial_state = Inl UndefinedBehaviour \<and>
   convertWAVToBIN short_fs [''a.wav''] ''out.bin'' [] =
     \<lparr> bin_data = Some [], tracks_out = [], raised = Some UndefinedBehaviour \<rparr> \<and>
   main short_fs ''wav2bin'' [''out.bin'', ''out.cue'', ''a.wav''] = None"
proof -
  have c: "contents short_fs ''a.wav'' = Some track_short"
    by (simp add: short_fs_def)
  have w: "writable short_fs ''out.bin''"
    by (simp add: short_fs_def)
  have l: "loop_body short_fs ''a.wav'' s = Inl UndefinedBehaviour" for s
    by (simp add: loop_body_def c Let_def short_header)
  have r: "convertWAVToBIN short_fs [''a.wav''] ''out.bin'' [] =
     \<lparr> bin_data = Some [], tracks_out = [], raised = Some UndefinedBehaviour \<rparr>"
    by (simp add: convertWAVToBIN_def w l)
  have m: "main short_fs ''wav2bin'' [''out.bin'', ''out.cue'', ''a.wav''] = None"
    by (simp add: main_def r)
  show ?thesis
    by (simp only: c l r m short_header simp_thms)
qed

end
